theory Spec2Isabelle
  imports Main "HOL-Library.Word"
begin

section \<open>The carbon credit token contract (CCtoken)\<close>

text \<open>
  A shallow embedding of the Solidity contract \<^verbatim>\<open>CCtoken\<close> (compiler 0.8.28).
  \<^item> \<^verbatim>\<open>uint256\<close> is a 256-bit word and \<^verbatim>\<open>address\<close> a 160-bit word. Arithmetic of the
    compiler is checked: an overflow, an underflow and a division by zero abort the call
    with a panic; inside \<^verbatim>\<open>unchecked\<close> blocks it wraps.
  \<^item> A mapping is a total function (every key holds the zero value until written).
  \<^item> A function of the contract takes the caller (\<^verbatim>\<open>msg.sender\<close>), the payment
    (\<^verbatim>\<open>msg.value\<close>) where it is payable, its arguments and the state, and returns its
    outcome together with the state it has reached: on success the new state, on failure
    the state as it was when the failing statement was met.
  \<^item> A failed \<^verbatim>\<open>require\<close> is an error value. The messages of the source are named after
    the error kinds of the specification, see \<open>error\<close>.
  \<^item> The virtual machine undoes every write of a call that fails: \<open>transact\<close>.
  \<^item> The low-level call that forwards the payment to a seller hands control to the
    receiver. What the receiver does is given by two parameters, both asked with the
    position of the payment within the call, the receiver and the value: \<open>pay\<close> says
    whether the receiver accepts the payment, \<open>reentry\<close> lists the calls the receiver makes
    back into the contract before it returns, see \<open>callback\<close>. The position fixes the state
    in which the receiver is called, so a receiver that acts on what it reads from the
    contract is one choice of the two parameters.
  \<^item> Positions in the array of orders are natural numbers: the array cannot hold
    \<open>2 ^ 256\<close> entries, so reading a position as \<^verbatim>\<open>uint256\<close> changes nothing.
\<close>

type_synonym uint256 = "256 word"
type_synonym address = "160 word"

subsection \<open>Errors\<close>

text \<open>
  The error kinds and the places of the source that raise them:
  \<^item> \<open>Unauthorized\<close>: "Device not registered", and the \<^verbatim>\<open>onlyOwner\<close> modifier;
  \<^item> \<open>InvalidAmount\<close>: "Energy produced must be greater than 0",
    "Invalid purchase amount", "amount must be greater than zero";
  \<^item> \<open>DuplicateAttestation\<close>: "Data already logged for this timestamp and Credits have
    been earned";
  \<^item> \<open>NoAttestation\<close>: "No smart meter data for this timestamp";
  \<^item> \<open>ClaimExceedsAttested\<close>: "Claim exceeds recorded energy";
  \<^item> \<open>BelowMintingThreshold\<close>: "Energy produced is insufficient for a single credit";
  \<^item> \<open>PriceBelowFloor\<close>: "Price per token can't be less than the floor proce of the
    market";
  \<^item> \<open>InsufficientBalance\<close>: "Insufficient balance", "Not Enough CCT in account to
    Utilize/Claim", and the ledger's own check;
  \<^item> \<open>InsufficientAllowance\<close>: "Contract not approved to spend seller's tokens", and
    the ledger's own check;
  \<^item> \<open>InvalidOrder\<close>: "Invalid order ID";
  \<^item> \<open>OrderClosed\<close>: "Order already fulfilled";
  \<^item> \<open>IncorrectPayment\<close>: "Incorrect payment amount";
  \<^item> \<open>PriceChanged\<close>: "Price mismatch";
  \<^item> \<open>SellerUnderfunded\<close>: "Not enough tokens in sellers account to fulfill the order";
  \<^item> \<open>PaymentForwardingFailed\<close>: "Payment transfer to seller failed",
    "Payment to seller failed";
  \<^item> \<open>EmptyBatch\<close>: "Empty order array";
  \<^item> \<open>LengthMismatch\<close>: "Mismatched order data", "Mismatched price data";
  \<^item> \<open>InvalidRecipient\<close>: "Not a valid address", and the ledger's zero address checks;
  \<^item> \<open>ReasonMissing\<close>: "Reason must be provided";
  \<^item> \<open>ReentrantCall\<close>: the \<^verbatim>\<open>nonReentrant\<close> modifier;
  \<^item> \<open>Panic\<close>: checked arithmetic and array bounds.
\<close>

datatype error =
    Unauthorized | InvalidAmount | DuplicateAttestation | NoAttestation
  | ClaimExceedsAttested | BelowMintingThreshold | InsufficientBalance
  | InsufficientAllowance | PriceBelowFloor | InvalidOrder | OrderClosed
  | IncorrectPayment | PriceChanged | SellerUnderfunded | PaymentForwardingFailed
  | ReentrantCall | EmptyBatch | LengthMismatch | InvalidRecipient | ReasonMissing
  | Panic

subsection \<open>Checked arithmetic\<close>

definition checked_add :: "uint256 \<Rightarrow> uint256 \<Rightarrow> uint256 option" where
  "checked_add a b = (if unat a + unat b < 2 ^ 256 then Some (a + b) else None)"

definition checked_sub :: "uint256 \<Rightarrow> uint256 \<Rightarrow> uint256 option" where
  "checked_sub a b = (if b \<le> a then Some (a - b) else None)"

definition checked_mul :: "uint256 \<Rightarrow> uint256 \<Rightarrow> uint256 option" where
  "checked_mul a b = (if unat a * unat b < 2 ^ 256 then Some (a * b) else None)"

definition checked_div :: "uint256 \<Rightarrow> uint256 \<Rightarrow> uint256 option" where
  "checked_div a b = (if b = 0 then None else Some (a div b))"

text \<open>The literal \<^verbatim>\<open>1e18\<close>.\<close>

definition SCALE :: uint256 where
  "SCALE = 1000000000000000000"

subsection \<open>State\<close>

record SellOrder =
  seller :: address
  amount :: uint256
  pricePerToken :: uint256
  fulfilled :: bool

datatype event =
    SmartMeterDataLogged address uint256 uint256 address
  | CarbonCreditsMinted address uint256 uint256
  | SellOrderPlaced nat address uint256 uint256
  | SellOrderFulfilled nat address uint256 uint256
  | CreditsBurnedWithReason address uint256 string
  | DeviceRegistered address
  | DeviceDeregistered address
  | CCTMintedByOwner address uint256
  | BatchOrdersFulfilled address "nat list" uint256
  | Transfer address address uint256
  | Approval address address uint256
  | OwnershipTransferred address address

text \<open>
  The storage of the contract: the variables of \<^verbatim>\<open>CCtoken\<close>, those of the bases it
  inherits (the ledger's balances, allowances and total supply, the owner, the flag of the
  reentrancy guard), the contract's own address \<open>this\<close> and the log of emitted events.
\<close>

record state =
  balances :: "address \<Rightarrow> uint256"
  allowances :: "address \<Rightarrow> address \<Rightarrow> uint256"
  totalSupply :: uint256
  owner :: address
  entered :: bool
  this :: address
  ENERGY_TO_CREDIT_CONVERSION :: uint256
  GovtWallet :: address
  FloorPricePerToken :: uint256
  smartMeterData :: "address \<Rightarrow> uint256 \<Rightarrow> uint256"
  registeredDevices :: "address \<Rightarrow> bool"
  sellOrders :: "SellOrder list"
  events :: "event list"

type_synonym 'a outcome = "(error + 'a) \<times> state"

definition emit :: "event \<Rightarrow> state \<Rightarrow> state" where
  "emit e s = s\<lparr>events := events s @ [e]\<rparr>"

text \<open>The state after the constructor, run by \<open>deployer\<close> for a contract at \<open>addr\<close>.\<close>

definition constructor :: "address \<Rightarrow> address \<Rightarrow> state" where
  "constructor deployer addr =
     \<lparr>balances = (\<lambda>_. 0), allowances = (\<lambda>_ _. 0), totalSupply = 0,
      owner = deployer, entered = False, this = addr,
      ENERGY_TO_CREDIT_CONVERSION = 100,
      GovtWallet = 0x0AfA610B923e7CF8DD4F0e929b5f0cd91C1A4d9e,
      FloorPricePerToken = 10000000,
      smartMeterData = (\<lambda>_ _. 0), registeredDevices = (\<lambda>_. False),
      sellOrders = [], events = [OwnershipTransferred 0 deployer]\<rparr>"

subsection \<open>The call boundary and the modifiers\<close>

text \<open>
  A call from outside is a transaction: when it fails (a \<^verbatim>\<open>require\<close> that does not hold,
  a panic), every write it has made is undone, and the storage and the log are as they
  were before it.
\<close>

definition transact :: "(state \<Rightarrow> 'a outcome) \<Rightarrow> state \<Rightarrow> 'a outcome" where
  "transact body s =
     (case body s of
        (Inl e, _) \<Rightarrow> (Inl e, s)
      | (Inr x, s') \<Rightarrow> (Inr x, s'))"

text \<open>
  Modelled from the spec: the modifier \<^verbatim>\<open>nonReentrant\<close> comes from the base contract
  \<^verbatim>\<open>ReentrancyGuard\<close>, imported from a library and not part of the sources. A guarded
  entry point rejects a nested entry with \<open>ReentrantCall\<close>; the flag is set while the
  body runs and released when it returns.
\<close>

definition nonReentrant :: "(state \<Rightarrow> 'a outcome) \<Rightarrow> state \<Rightarrow> 'a outcome" where
  "nonReentrant body s =
     (if entered s then (Inl ReentrantCall, s)
      else case body (s\<lparr>entered := True\<rparr>) of
             (Inl e, s') \<Rightarrow> (Inl e, s')
           | (Inr x, s') \<Rightarrow> (Inr x, s'\<lparr>entered := False\<rparr>))"

text \<open>
  Modelled from the spec: the modifier \<^verbatim>\<open>onlyOwner\<close> comes from the base contract
  \<^verbatim>\<open>Ownable\<close>, imported from a library and not part of the sources. A call from
  another identity than the administrator fails with \<open>Unauthorized\<close>.
\<close>

definition onlyOwner :: "address \<Rightarrow> (state \<Rightarrow> 'a outcome) \<Rightarrow> state \<Rightarrow> 'a outcome" where
  "onlyOwner sender body s =
     (if owner s \<noteq> sender then (Inl Unauthorized, s) else body s)"

subsection \<open>The ledger\<close>

text \<open>
  Modelled from the spec: the token base contract \<^verbatim>\<open>ERC20\<close> that \<^verbatim>\<open>CCtoken\<close> inherits is
  imported from a library and is not part of the sources. The ledger below follows the
  specification's Ledger component: transfer and burn fail \<open>InsufficientBalance\<close> when
  the source holds less than the amount, mint, burn and transfer fail
  \<open>InvalidRecipient\<close> for the zero identity, and the total supply grows with every mint
  and shrinks with every burn. As in the library, only the growth of the total supply is
  checked arithmetic, and every movement is logged as a \<open>Transfer\<close> event, a mint coming
  from the zero address and a burn going to it.
\<close>

text \<open>Modelled from the spec: the ledger's view \<^verbatim>\<open>balanceOf\<close> of a balance.\<close>

definition balanceOf :: "state \<Rightarrow> address \<Rightarrow> uint256" where
  "balanceOf s a = balances s a"

text \<open>
  Modelled from the spec: the ledger's view \<^verbatim>\<open>allowance\<close> of what \<open>holder\<close> has
  authorised \<open>spender\<close> to move.
\<close>

definition allowance :: "state \<Rightarrow> address \<Rightarrow> address \<Rightarrow> uint256" where
  "allowance s holder spender = allowances s holder spender"

text \<open>
  Modelled from the spec: the ledger's internal \<^verbatim>\<open>_update\<close>, the one place where
  balances and the total supply change. The zero address as source is a mint, as
  destination a burn.
\<close>

definition ledger_update :: "address \<Rightarrow> address \<Rightarrow> uint256 \<Rightarrow> state \<Rightarrow> unit outcome" where
  "ledger_update src dst val s =
     (case (if src = 0 then
              (case checked_add (totalSupply s) val of
                 None \<Rightarrow> Inl Panic
               | Some t \<Rightarrow> Inr (s\<lparr>totalSupply := t\<rparr>))
            else if balances s src < val then Inl InsufficientBalance
            else Inr (s\<lparr>balances := (balances s)(src := balances s src - val)\<rparr>)) of
        Inl e \<Rightarrow> (Inl e, s)
      | Inr s1 \<Rightarrow>
          (Inr (),
           emit (Transfer src dst val)
             (if dst = 0 then s1\<lparr>totalSupply := totalSupply s1 - val\<rparr>
              else s1\<lparr>balances := (balances s1)(dst := balances s1 dst + val)\<rparr>)))"

text \<open>Modelled from the spec: the ledger's internal \<^verbatim>\<open>_mint\<close>.\<close>

definition ledger_mint :: "address \<Rightarrow> uint256 \<Rightarrow> state \<Rightarrow> unit outcome" where
  "ledger_mint account val s =
     (if account = 0 then (Inl InvalidRecipient, s) else ledger_update 0 account val s)"

text \<open>Modelled from the spec: the ledger's internal \<^verbatim>\<open>_burn\<close>.\<close>

definition ledger_burn :: "address \<Rightarrow> uint256 \<Rightarrow> state \<Rightarrow> unit outcome" where
  "ledger_burn account val s =
     (if account = 0 then (Inl InvalidRecipient, s) else ledger_update account 0 val s)"

text \<open>Modelled from the spec: the ledger's internal \<^verbatim>\<open>_transfer\<close>.\<close>

definition ledger_transfer :: "address \<Rightarrow> address \<Rightarrow> uint256 \<Rightarrow> state \<Rightarrow> unit outcome" where
  "ledger_transfer src dst val s =
     (if src = 0 then (Inl InvalidRecipient, s)
      else if dst = 0 then (Inl InvalidRecipient, s)
      else ledger_update src dst val s)"

text \<open>Modelled from the spec: the ledger's public \<^verbatim>\<open>transfer\<close>, from the caller.\<close>

definition transfer :: "address \<Rightarrow> address \<Rightarrow> uint256 \<Rightarrow> state \<Rightarrow> bool outcome" where
  "transfer sender dst val s =
     (case ledger_transfer sender dst val s of
        (Inl e, s') \<Rightarrow> (Inl e, s')
      | (Inr _, s') \<Rightarrow> (Inr True, s'))"

text \<open>
  Modelled from the spec: the ledger's public \<^verbatim>\<open>approve\<close>, by which the caller
  authorises \<open>spender\<close> to move up to \<open>val\<close> of the caller's balance.
\<close>

definition approve :: "address \<Rightarrow> address \<Rightarrow> uint256 \<Rightarrow> state \<Rightarrow> bool outcome" where
  "approve sender spender val s =
     (if sender = 0 then (Inl InvalidRecipient, s)
      else if spender = 0 then (Inl InvalidRecipient, s)
      else (Inr True,
            emit (Approval sender spender val)
              (s\<lparr>allowances := (allowances s)(sender := (allowances s sender)(spender := val))\<rparr>)))"

text \<open>
  Modelled from the spec: the ledger's public \<^verbatim>\<open>transferFrom\<close>, which spends the
  caller's allowance from \<open>src\<close> (an allowance of the largest value is not reduced).
\<close>

definition transferFrom :: "address \<Rightarrow> address \<Rightarrow> address \<Rightarrow> uint256 \<Rightarrow> state \<Rightarrow> bool outcome" where
  "transferFrom sender src dst val s =
     (let currentAllowance = allowance s src sender in
      if currentAllowance = - 1 then transfer src dst val s
      else if currentAllowance < val then (Inl InsufficientAllowance, s)
      else if src = 0 then (Inl InvalidRecipient, s)
      else if sender = 0 then (Inl InvalidRecipient, s)
      else transfer src dst val
             (s\<lparr>allowances := (allowances s)(src := (allowances s src)(sender := currentAllowance - val))\<rparr>))"

subsection \<open>Administration\<close>

definition registerDevice :: "address \<Rightarrow> address \<Rightarrow> state \<Rightarrow> unit outcome" where
  "registerDevice sender device =
     onlyOwner sender (\<lambda>s.
       (Inr (),
        emit (DeviceRegistered device)
          (s\<lparr>registeredDevices := (registeredDevices s)(device := True)\<rparr>)))"

definition deregisterDevice :: "address \<Rightarrow> address \<Rightarrow> state \<Rightarrow> unit outcome" where
  "deregisterDevice sender device =
     onlyOwner sender (\<lambda>s.
       (Inr (),
        emit (DeviceDeregistered device)
          (s\<lparr>registeredDevices := (registeredDevices s)(device := False)\<rparr>)))"

definition changeEnergyToCreditRatio :: "address \<Rightarrow> uint256 \<Rightarrow> state \<Rightarrow> unit outcome" where
  "changeEnergyToCreditRatio sender newRatio =
     onlyOwner sender (\<lambda>s. (Inr (), s\<lparr>ENERGY_TO_CREDIT_CONVERSION := newRatio\<rparr>))"

definition changeGovtWallet :: "address \<Rightarrow> address \<Rightarrow> state \<Rightarrow> unit outcome" where
  "changeGovtWallet sender newAddress =
     onlyOwner sender (\<lambda>s. (Inr (), s\<lparr>GovtWallet := newAddress\<rparr>))"

definition changeFloorPricePerToken :: "address \<Rightarrow> uint256 \<Rightarrow> state \<Rightarrow> unit outcome" where
  "changeFloorPricePerToken sender newPrice =
     onlyOwner sender (\<lambda>s. (Inr (), s\<lparr>FloorPricePerToken := newPrice\<rparr>))"

subsection \<open>Meter data and minting\<close>

definition logSmartMeterData ::
  "address \<Rightarrow> address \<Rightarrow> uint256 \<Rightarrow> uint256 \<Rightarrow> state \<Rightarrow> bool outcome" where
  "logSmartMeterData sender producer timestamp energyProduced s =
     (if \<not> registeredDevices s sender then (Inl Unauthorized, s)
      else if \<not> energyProduced > 0 then (Inl InvalidAmount, s)
      else if smartMeterData s producer timestamp \<noteq> 0 then (Inl DuplicateAttestation, s)
      else
        (Inr True,
         emit (SmartMeterDataLogged producer timestamp energyProduced sender)
           (s\<lparr>smartMeterData :=
                (smartMeterData s)(producer :=
                  (smartMeterData s producer)(timestamp := energyProduced))\<rparr>)))"

definition earnCarbonCredit :: "address \<Rightarrow> uint256 \<Rightarrow> uint256 \<Rightarrow> state \<Rightarrow> uint256 outcome" where
  "earnCarbonCredit sender energyProduced timestamp s =
     (if \<not> energyProduced > 0 then (Inl InvalidAmount, s)
      else
        let recordedEnergy = smartMeterData s sender timestamp in
        if \<not> recordedEnergy > 0 then (Inl NoAttestation, s)
        else if \<not> recordedEnergy \<ge> energyProduced then (Inl ClaimExceedsAttested, s)
        else
          (case checked_mul energyProduced SCALE of
             None \<Rightarrow> (Inl Panic, s)
           | Some scaled \<Rightarrow>
               (case checked_div scaled (ENERGY_TO_CREDIT_CONVERSION s) of
                  None \<Rightarrow> (Inl Panic, s)
                | Some creditsToMint \<Rightarrow>
                    if \<not> creditsToMint > 0 then (Inl BelowMintingThreshold, s)
                    else
                      (case checked_sub (smartMeterData s sender timestamp) energyProduced of
                         None \<Rightarrow> (Inl Panic, s)
                       | Some remaining \<Rightarrow>
                           (case ledger_mint sender creditsToMint
                                   (s\<lparr>smartMeterData :=
                                        (smartMeterData s)(sender :=
                                          (smartMeterData s sender)(timestamp := remaining))\<rparr>) of
                              (Inl e, s') \<Rightarrow> (Inl e, s')
                            | (Inr _, s') \<Rightarrow>
                                (Inr creditsToMint,
                                 emit (CarbonCreditsMinted sender energyProduced creditsToMint) s'))))))"

subsection \<open>The owner's burning and minting\<close>

definition OwnerburnCredits :: "address \<Rightarrow> address \<Rightarrow> uint256 \<Rightarrow> string \<Rightarrow> state \<Rightarrow> unit outcome" where
  "OwnerburnCredits sender account amt reason =
     onlyOwner sender (\<lambda>s.
       if \<not> length reason > 0 then (Inl ReasonMissing, s)
       else
         (case ledger_burn account amt s of
            (Inl e, s') \<Rightarrow> (Inl e, s')
          | (Inr _, s') \<Rightarrow> (Inr (), emit (CreditsBurnedWithReason account amt reason) s')))"

definition mintCCT :: "address \<Rightarrow> address \<Rightarrow> uint256 \<Rightarrow> state \<Rightarrow> unit outcome" where
  "mintCCT sender account amt =
     onlyOwner sender (\<lambda>s.
       if \<not> account \<noteq> 0 then (Inl InvalidRecipient, s)
       else
         (case ledger_mint account amt s of
            (Inl e, s') \<Rightarrow> (Inl e, s')
          | (Inr _, s') \<Rightarrow> (Inr (), emit (CCTMintedByOwner account amt) s')))"

subsection \<open>The order book\<close>

definition placeSellOrder :: "address \<Rightarrow> uint256 \<Rightarrow> uint256 \<Rightarrow> state \<Rightarrow> nat outcome" where
  "placeSellOrder sender amountToSell pricePerToken' s =
     (if \<not> pricePerToken' \<ge> FloorPricePerToken s then (Inl PriceBelowFloor, s)
      else if \<not> balanceOf s sender \<ge> amountToSell then (Inl InsufficientBalance, s)
      else if \<not> allowance s sender (this s) \<ge> amountToSell then (Inl InsufficientAllowance, s)
      else
        let s1 = s\<lparr>sellOrders := sellOrders s @
                    [\<lparr>seller = sender, amount = amountToSell,
                      pricePerToken = pricePerToken', fulfilled = False\<rparr>]\<rparr>
        in (Inr (length (sellOrders s1) - 1),
            emit (SellOrderPlaced (length (sellOrders s1) - 1) sender amountToSell pricePerToken') s1))"

text \<open>
  The write \<^verbatim>\<open>order.amount -= amountToBuy; if (order.amount == 0) order.fulfilled = true\<close>
  through the storage reference \<^verbatim>\<open>order = sellOrders[orderId]\<close>.
\<close>

definition reduceOrder :: "nat \<Rightarrow> uint256 \<Rightarrow> state \<Rightarrow> unit outcome" where
  "reduceOrder orderId amountToBuy s =
     (if \<not> orderId < length (sellOrders s) then (Inl Panic, s)
      else
        let order = sellOrders s ! orderId in
        case checked_sub (amount order) amountToBuy of
          None \<Rightarrow> (Inl Panic, s)
        | Some a \<Rightarrow>
            (Inr (),
             s\<lparr>sellOrders := (sellOrders s)[orderId :=
                  order\<lparr>amount := a, fulfilled := (if a = 0 then True else fulfilled order)\<rparr>]\<rparr>))"

subsection \<open>Calls back into the contract\<close>

text \<open>
  While a payment is forwarded the receiver has control and can call the contract. The
  functions with the modifier \<^verbatim>\<open>nonReentrant\<close> are closed to it: the flag of the guard is
  set, they fail with \<open>ReentrantCall\<close> and write nothing. Every other function is open: a
  \<open>callback\<close> is a call of one of them, with its caller, which can be the receiver or any
  contract the receiver calls in turn.
\<close>

datatype callback =
    CbRegisterDevice address address
  | CbDeregisterDevice address address
  | CbChangeEnergyToCreditRatio address uint256
  | CbChangeGovtWallet address address
  | CbChangeFloorPricePerToken address uint256
  | CbLogSmartMeterData address address uint256 uint256
  | CbEarnCarbonCredit address uint256 uint256
  | CbPlaceSellOrder address uint256 uint256
  | CbOwnerBurnCredits address address uint256 string
  | CbMintCCT address address uint256
  | CbTransfer address address uint256
  | CbApprove address address uint256
  | CbTransferFrom address address address uint256

definition forget :: "'a outcome \<Rightarrow> unit outcome" where
  "forget r = (case r of (Inl e, s) \<Rightarrow> (Inl e, s) | (Inr _, s) \<Rightarrow> (Inr (), s))"

fun callback_dispatch :: "callback \<Rightarrow> state \<Rightarrow> unit outcome" where
  "callback_dispatch (CbRegisterDevice sender device) s = registerDevice sender device s"
| "callback_dispatch (CbDeregisterDevice sender device) s = deregisterDevice sender device s"
| "callback_dispatch (CbChangeEnergyToCreditRatio sender r) s = changeEnergyToCreditRatio sender r s"
| "callback_dispatch (CbChangeGovtWallet sender a) s = changeGovtWallet sender a s"
| "callback_dispatch (CbChangeFloorPricePerToken sender p) s = changeFloorPricePerToken sender p s"
| "callback_dispatch (CbLogSmartMeterData sender p t e) s = forget (logSmartMeterData sender p t e s)"
| "callback_dispatch (CbEarnCarbonCredit sender e t) s = forget (earnCarbonCredit sender e t s)"
| "callback_dispatch (CbPlaceSellOrder sender a p) s = forget (placeSellOrder sender a p s)"
| "callback_dispatch (CbOwnerBurnCredits sender a v r) s = OwnerburnCredits sender a v r s"
| "callback_dispatch (CbMintCCT sender a v) s = mintCCT sender a v s"
| "callback_dispatch (CbTransfer sender d v) s = forget (transfer sender d v s)"
| "callback_dispatch (CbApprove sender sp v) s = forget (approve sender sp v s)"
| "callback_dispatch (CbTransferFrom sender f d v) s = forget (transferFrom sender f d v s)"

text \<open>
  The calls of the receiver run one after the other, each in a frame of its own: one that
  fails is undone alone, and the receiver goes on.
\<close>

fun callbacks :: "callback list \<Rightarrow> state \<Rightarrow> state" where
  "callbacks [] s = s"
| "callbacks (c # cs) s = callbacks cs (snd (transact (callback_dispatch c) s))"

subsection \<open>Fulfilment of one order\<close>

text \<open>
  A function with the modifier \<^verbatim>\<open>nonReentrant\<close> is given in two steps: its body, named
  with the suffix \<open>_body\<close>, and the function itself, the body under the guard. When the
  receiver refuses the payment, what it has done is undone with its frame and the call
  fails; when it accepts, the function goes on in the state the receiver's calls have
  left.
\<close>

definition fulfillSellOrder_body ::
  "address \<Rightarrow> uint256 \<Rightarrow> (nat \<Rightarrow> address \<Rightarrow> uint256 \<Rightarrow> bool) \<Rightarrow>
   (nat \<Rightarrow> address \<Rightarrow> uint256 \<Rightarrow> callback list) \<Rightarrow>
   nat \<Rightarrow> uint256 \<Rightarrow> state \<Rightarrow> bool outcome" where
  "fulfillSellOrder_body sender msg_value pay reentry orderId amountToBuy s =
     (if \<not> orderId < length (sellOrders s) then (Inl InvalidOrder, s)
      else
        let order = sellOrders s ! orderId in
        if fulfilled order then (Inl OrderClosed, s)
        else if \<not> (amountToBuy > 0 \<and> amountToBuy \<le> amount order) then (Inl InvalidAmount, s)
        else
          (case checked_mul amountToBuy (pricePerToken order) of
             None \<Rightarrow> (Inl Panic, s)
           | Some product \<Rightarrow>
               let totalPrice = product div SCALE in
               if \<not> msg_value = totalPrice then (Inl IncorrectPayment, s)
               else if \<not> balanceOf s (seller order) \<ge> amountToBuy then (Inl SellerUnderfunded, s)
               else
                 (case reduceOrder orderId amountToBuy s of
                    (Inl e, s1) \<Rightarrow> (Inl e, s1)
                  | (Inr _, s1) \<Rightarrow>
                      (case ledger_transfer (seller order) sender amountToBuy s1 of
                         (Inl e, s2) \<Rightarrow> (Inl e, s2)
                       | (Inr _, s2) \<Rightarrow>
                           if \<not> pay 0 (seller order) msg_value
                           then (Inl PaymentForwardingFailed, s2)
                           else (Inr True,
                                 emit (SellOrderFulfilled orderId sender amountToBuy msg_value)
                                   (callbacks (reentry 0 (seller order) msg_value) s2))))))"

definition fulfillSellOrder ::
  "address \<Rightarrow> uint256 \<Rightarrow> (nat \<Rightarrow> address \<Rightarrow> uint256 \<Rightarrow> bool) \<Rightarrow>
   (nat \<Rightarrow> address \<Rightarrow> uint256 \<Rightarrow> callback list) \<Rightarrow>
   nat \<Rightarrow> uint256 \<Rightarrow> state \<Rightarrow> bool outcome" where
  "fulfillSellOrder sender msg_value pay reentry orderId amountToBuy =
     nonReentrant (fulfillSellOrder_body sender msg_value pay reentry orderId amountToBuy)"

subsection \<open>Batches\<close>

text \<open>
  After the two length checks the three arrays have one length, and each loop reads them
  at the same index: the loops run over the list of triples
  \<open>(orderId, amountToBuy, pricePerToken)\<close>.
\<close>

type_synonym entry = "nat \<times> uint256 \<times> uint256"

text \<open>First pass: validate all orders and calculate the total cost. It writes nothing.\<close>

fun firstPass :: "state \<Rightarrow> entry list \<Rightarrow> uint256 \<Rightarrow> error + uint256" where
  "firstPass s [] totalCost = Inr totalCost"
| "firstPass s ((orderId, amountToBuy, pricePerToken') # rest) totalCost =
     (if \<not> orderId < length (sellOrders s) then Inl InvalidOrder
      else
        let order = sellOrders s ! orderId in
        if fulfilled order then Inl OrderClosed
        else if \<not> (amountToBuy > 0 \<and> amountToBuy \<le> amount order) then Inl InvalidAmount
        else if \<not> pricePerToken' = pricePerToken order then Inl PriceChanged
        else
          (case checked_mul amountToBuy pricePerToken' of
             None \<Rightarrow> Inl Panic
           | Some product \<Rightarrow>
               (case checked_add totalCost (product div SCALE) of
                  None \<Rightarrow> Inl Panic
                | Some t \<Rightarrow> firstPass s rest t)))"

text \<open>Second pass: update the state of every order.\<close>

fun secondPass :: "entry list \<Rightarrow> state \<Rightarrow> unit outcome" where
  "secondPass [] s = (Inr (), s)"
| "secondPass ((orderId, amountToBuy, pricePerToken') # rest) s =
     (case reduceOrder orderId amountToBuy s of
        (Inl e, s1) \<Rightarrow> (Inl e, s1)
      | (Inr _, s1) \<Rightarrow> secondPass rest s1)"

text \<open>
  Third pass: perform the transfers, the \<open>i\<close>-th payment being the \<open>i\<close>-th of the call.
  After each accepted payment the loop goes on in the state the receiver's calls have
  left.
\<close>

fun thirdPass ::
  "address \<Rightarrow> (nat \<Rightarrow> address \<Rightarrow> uint256 \<Rightarrow> bool) \<Rightarrow>
   (nat \<Rightarrow> address \<Rightarrow> uint256 \<Rightarrow> callback list) \<Rightarrow>
   nat \<Rightarrow> entry list \<Rightarrow> state \<Rightarrow> unit outcome" where
  "thirdPass sender pay reentry i [] s = (Inr (), s)"
| "thirdPass sender pay reentry i ((orderId, amountToBuy, pricePerToken') # rest) s =
     (if \<not> orderId < length (sellOrders s) then (Inl Panic, s)
      else
        let order = sellOrders s ! orderId in
        case checked_mul amountToBuy pricePerToken' of
          None \<Rightarrow> (Inl Panic, s)
        | Some product \<Rightarrow>
            let orderCost = product div SCALE in
            (case ledger_transfer (seller order) sender amountToBuy s of
               (Inl e, s1) \<Rightarrow> (Inl e, s1)
             | (Inr _, s1) \<Rightarrow>
                 if \<not> pay i (seller order) orderCost then (Inl PaymentForwardingFailed, s1)
                 else thirdPass sender pay reentry (Suc i) rest
                        (emit (SellOrderFulfilled orderId sender amountToBuy orderCost)
                           (callbacks (reentry i (seller order) orderCost) s1))))"

definition fulfillBatchOrders_body ::
  "address \<Rightarrow> uint256 \<Rightarrow> (nat \<Rightarrow> address \<Rightarrow> uint256 \<Rightarrow> bool) \<Rightarrow>
   (nat \<Rightarrow> address \<Rightarrow> uint256 \<Rightarrow> callback list) \<Rightarrow>
   nat list \<Rightarrow> uint256 list \<Rightarrow> uint256 list \<Rightarrow> state \<Rightarrow> unit outcome" where
  "fulfillBatchOrders_body sender msg_value pay reentry orderIds amountsToBuy pricesPerToken s =
     (if \<not> length orderIds > 0 then (Inl EmptyBatch, s)
      else if \<not> length orderIds = length amountsToBuy then (Inl LengthMismatch, s)
      else if \<not> length orderIds = length pricesPerToken then (Inl LengthMismatch, s)
      else
        let entries = zip orderIds (zip amountsToBuy pricesPerToken) in
        case firstPass s entries 0 of
          Inl e \<Rightarrow> (Inl e, s)
        | Inr totalCost \<Rightarrow>
            if \<not> totalCost = msg_value then (Inl IncorrectPayment, s)
            else
              (case secondPass entries s of
                 (Inl e, s1) \<Rightarrow> (Inl e, s1)
               | (Inr _, s1) \<Rightarrow>
                   (case thirdPass sender pay reentry 0 entries s1 of
                      (Inl e, s2) \<Rightarrow> (Inl e, s2)
                    | (Inr _, s2) \<Rightarrow>
                        (Inr (), emit (BatchOrdersFulfilled sender orderIds totalCost) s2))))"

definition fulfillBatchOrders ::
  "address \<Rightarrow> uint256 \<Rightarrow> (nat \<Rightarrow> address \<Rightarrow> uint256 \<Rightarrow> bool) \<Rightarrow>
   (nat \<Rightarrow> address \<Rightarrow> uint256 \<Rightarrow> callback list) \<Rightarrow>
   nat list \<Rightarrow> uint256 list \<Rightarrow> uint256 list \<Rightarrow> state \<Rightarrow> unit outcome" where
  "fulfillBatchOrders sender msg_value pay reentry orderIds amountsToBuy pricesPerToken =
     nonReentrant
       (fulfillBatchOrders_body sender msg_value pay reentry orderIds amountsToBuy pricesPerToken)"

subsection \<open>Burning one's own credits\<close>

definition UtilizeCarbonCredit_body :: "address \<Rightarrow> uint256 \<Rightarrow> state \<Rightarrow> unit outcome" where
  "UtilizeCarbonCredit_body sender amt s =
     (if \<not> amt > 0 then (Inl InvalidAmount, s)
      else if \<not> balanceOf s sender \<ge> amt then (Inl InsufficientBalance, s)
      else ledger_burn sender amt s)"

definition UtilizeCarbonCredit :: "address \<Rightarrow> uint256 \<Rightarrow> state \<Rightarrow> unit outcome" where
  "UtilizeCarbonCredit sender amt = nonReentrant (UtilizeCarbonCredit_body sender amt)"

subsection \<open>Calls and runs\<close>

text \<open>
  Every call a user can make to the contract: the functions of \<^verbatim>\<open>CCtoken\<close> and the
  ledger's public functions, each with its caller, and the two fulfilments with what the
  receivers of their payments do. A run executes calls one after the other, each one as
  a transaction.
\<close>

datatype call =
    RegisterDevice address address
  | DeregisterDevice address address
  | ChangeEnergyToCreditRatio address uint256
  | ChangeGovtWallet address address
  | ChangeFloorPricePerToken address uint256
  | LogSmartMeterData address address uint256 uint256
  | EarnCarbonCredit address uint256 uint256
  | PlaceSellOrder address uint256 uint256
  | FulfillSellOrder address uint256 "nat \<Rightarrow> address \<Rightarrow> uint256 \<Rightarrow> bool"
      "nat \<Rightarrow> address \<Rightarrow> uint256 \<Rightarrow> callback list" nat uint256
  | FulfillBatchOrders address uint256 "nat \<Rightarrow> address \<Rightarrow> uint256 \<Rightarrow> bool"
      "nat \<Rightarrow> address \<Rightarrow> uint256 \<Rightarrow> callback list"
      "nat list" "uint256 list" "uint256 list"
  | OwnerBurnCredits address address uint256 string
  | UtilizeCredit address uint256
  | MintCCT address address uint256
  | TransferCall address address uint256
  | ApproveCall address address uint256
  | TransferFromCall address address address uint256

fun dispatch :: "call \<Rightarrow> state \<Rightarrow> unit outcome" where
  "dispatch (RegisterDevice sender device) s = registerDevice sender device s"
| "dispatch (DeregisterDevice sender device) s = deregisterDevice sender device s"
| "dispatch (ChangeEnergyToCreditRatio sender r) s = changeEnergyToCreditRatio sender r s"
| "dispatch (ChangeGovtWallet sender a) s = changeGovtWallet sender a s"
| "dispatch (ChangeFloorPricePerToken sender p) s = changeFloorPricePerToken sender p s"
| "dispatch (LogSmartMeterData sender p t e) s = forget (logSmartMeterData sender p t e s)"
| "dispatch (EarnCarbonCredit sender e t) s = forget (earnCarbonCredit sender e t s)"
| "dispatch (PlaceSellOrder sender a p) s = forget (placeSellOrder sender a p s)"
| "dispatch (FulfillSellOrder sender v pay reentry i a) s =
     forget (fulfillSellOrder sender v pay reentry i a s)"
| "dispatch (FulfillBatchOrders sender v pay reentry is as ps) s =
     fulfillBatchOrders sender v pay reentry is as ps s"
| "dispatch (OwnerBurnCredits sender a v r) s = OwnerburnCredits sender a v r s"
| "dispatch (UtilizeCredit sender v) s = UtilizeCarbonCredit sender v s"
| "dispatch (MintCCT sender a v) s = mintCCT sender a v s"
| "dispatch (TransferCall sender d v) s = forget (transfer sender d v s)"
| "dispatch (ApproveCall sender sp v) s = forget (approve sender sp v s)"
| "dispatch (TransferFromCall sender f d v) s = forget (transferFrom sender f d v s)"

definition step :: "call \<Rightarrow> state \<Rightarrow> state" where
  "step c s = snd (transact (dispatch c) s)"

fun run :: "state \<Rightarrow> call list \<Rightarrow> state" where
  "run s [] = s"
| "run s (c # cs) = run (step c s) cs"

subsection \<open>Conservation\<close>

text \<open>
  The sum of all balances, and the cumulative amounts minted and burned, read off the log:
  the ledger logs a mint as a \<open>Transfer\<close> from the zero address and a burn as a
  \<open>Transfer\<close> to it.
\<close>

definition sum_balances :: "state \<Rightarrow> nat" where
  "sum_balances s = (\<Sum>a\<in>UNIV. unat (balances s a))"

fun minted_of :: "event \<Rightarrow> nat" where
  "minted_of (Transfer src dst val) = (if src = 0 then unat val else 0)"
| "minted_of _ = 0"

fun burned_of :: "event \<Rightarrow> nat" where
  "burned_of (Transfer src dst val) = (if dst = 0 then unat val else 0)"
| "burned_of _ = 0"

definition totalMinted :: "state \<Rightarrow> nat" where
  "totalMinted s = sum_list (map minted_of (events s))"

definition totalBurned :: "state \<Rightarrow> nat" where
  "totalBurned s = sum_list (map burned_of (events s))"

definition conserved :: "state \<Rightarrow> bool" where
  "conserved s \<longleftrightarrow>
     sum_balances s + totalBurned s = totalMinted s \<and> unat (totalSupply s) = sum_balances s"

subsection \<open>The state when a purchase is paid\<close>

text \<open>
  The state in which \<^verbatim>\<open>fulfillSellOrder\<close>, called by \<open>buyer\<close> for the amount \<open>a\<close> of
  order \<open>i\<close> in the state \<open>s\<close>, forwards the payment: the order is reduced and the
  credits have moved.
\<close>

definition moved :: "address \<Rightarrow> nat \<Rightarrow> uint256 \<Rightarrow> state \<Rightarrow> state" where
  "moved buyer i a s =
     s\<lparr>sellOrders := (sellOrders s)[i :=
          (sellOrders s ! i)\<lparr>amount := amount (sellOrders s ! i) - a,
             fulfilled := (if amount (sellOrders s ! i) - a = 0 then True
                           else fulfilled (sellOrders s ! i))\<rparr>],
       balances := (balances s)
          (seller (sellOrders s ! i) := balances s (seller (sellOrders s ! i)) - a,
           buyer := ((balances s)
              (seller (sellOrders s ! i) := balances s (seller (sellOrders s ! i)) - a)) buyer + a),
       events := events s @ [Transfer (seller (sellOrders s ! i)) buyer a]\<rparr>"

text \<open>
  The state a successful \<^verbatim>\<open>fulfillSellOrder\<close> paying \<open>v\<close> ends in, the calls \<open>cbs\<close>
  being those the seller has made while it was paid.
\<close>

definition settled ::
  "address \<Rightarrow> uint256 \<Rightarrow> callback list \<Rightarrow> nat \<Rightarrow> uint256 \<Rightarrow> state \<Rightarrow> state" where
  "settled buyer v cbs i a s =
     (emit (SellOrderFulfilled i buyer a v)
        (callbacks cbs (moved buyer i a (s\<lparr>entered := True\<rparr>))))\<lparr>entered := False\<rparr>"

subsection \<open>Example states\<close>

text \<open>
  Runs from the deployed contract: the owner 1 mints credits to the seller 5, who approves
  the contract (at address 2) and places orders. In \<open>market_state\<close> order 0 offers 1000
  units at the price \<open>2 * 10 ^ 18\<close> and order 1 offers 10 units at the floor price; in
  \<open>underfunded_state\<close> the seller has then moved all credits away; in \<open>overflow_state\<close>
  the order offers \<open>2 ^ 255\<close> units at the floor price.
\<close>

definition market_state :: state where
  "market_state =
     run (constructor 1 2)
       [MintCCT 1 5 1000, ApproveCall 5 2 1000,
        PlaceSellOrder 5 1000 2000000000000000000, PlaceSellOrder 5 10 10000000]"

definition underfunded_state :: state where
  "underfunded_state = run market_state [TransferCall 5 8 1000]"

definition overflow_state :: state where
  "overflow_state =
     run (constructor 1 2)
       [MintCCT 1 5 57896044618658097711785492504343953926634992332820282019728792003956564819968,
        ApproveCall 5 2 57896044618658097711785492504343953926634992332820282019728792003956564819968,
        PlaceSellOrder 5 57896044618658097711785492504343953926634992332820282019728792003956564819968 10000000]"

subsection \<open>The state after a claim\<close>

text \<open>
  The state a successful \<^verbatim>\<open>earnCarbonCredit\<close> of the energy \<open>e\<close> at the time \<open>t\<close>,
  minting \<open>c\<close> credits to \<open>sender\<close>, reaches from \<open>s\<close>.
\<close>

definition minted :: "address \<Rightarrow> uint256 \<Rightarrow> uint256 \<Rightarrow> uint256 \<Rightarrow> state \<Rightarrow> state" where
  "minted sender e t c s =
     s\<lparr>smartMeterData := (smartMeterData s)(sender :=
          (smartMeterData s sender)(t := smartMeterData s sender t - e)),
       totalSupply := totalSupply s + c,
       balances := (balances s)(sender := balances s sender + c),
       events := events s @ [Transfer 0 sender c, CarbonCreditsMinted sender e c]\<rparr>"

text \<open>
  The scenario of the specification: the owner 1 registers the device 9, which attests
  500 kWh for the producer 5 at the time 77. The conversion ratio is the initial 100.
\<close>

definition meter_state :: state where
  "meter_state = run (constructor 1 2) [RegisterDevice 1 9, LogSmartMeterData 9 5 77 500]"

subsection \<open>The cost of a batch\<close>


text \<open>
  A market with two sellers: order 0 offers 10 units of seller 5 at the price \<open>10 ^ 18\<close>,
  order 1 offers 5 units of seller 7 at the price \<open>2 * 10 ^ 18\<close>.
\<close>

definition batch_state :: state where
  "batch_state =
     run (constructor 1 2)
       [MintCCT 1 5 1000, ApproveCall 5 2 1000, PlaceSellOrder 5 10 1000000000000000000,
        MintCCT 1 7 5, ApproveCall 7 2 5, PlaceSellOrder 7 5 2000000000000000000]"

section \<open>Properties\<close>

subsection \<open>Conservation of the ledger\<close>

lemma sum_upd:
  fixes f :: "address \<Rightarrow> uint256"
  shows "(\<Sum>a\<in>UNIV. unat ((f(x := v)) a)) + unat (f x) = (\<Sum>a\<in>UNIV. unat (f a)) + unat v"
proof -
  let ?g = "\<lambda>a. unat ((f(x := v)) a)" and ?h = "\<lambda>a. unat (f a)"
  have 1: "sum ?g UNIV = ?g x + sum ?g (UNIV - {x})"
    by (rule sum.remove) simp_all
  have 2: "sum ?h UNIV = ?h x + sum ?h (UNIV - {x})"
    by (rule sum.remove) simp_all
  have 3: "sum ?g (UNIV - {x}) = sum ?h (UNIV - {x})"
    by (rule sum.cong) auto
  show ?thesis using 1 2 3 by simp
qed

lemma bal_le_sum: "unat (balances s a) \<le> sum_balances s"
  unfolding sum_balances_def
  using member_le_sum [of a UNIV "\<lambda>a. unat (balances s a)"] by simp

lemma sum_balances_upd:
  "sum_balances (s\<lparr>balances := (balances s)(x := v)\<rparr>) + unat (balances s x) = sum_balances s + unat v"
  unfolding sum_balances_def using sum_upd [of "balances s" x v] by simp

lemma unat_lt: "unat (x :: uint256) < 2 ^ 256"
  using unsigned_less [of x, where ?'a = nat] by simp

lemma ledger_update_conserved:
  assumes "conserved s" and "ledger_update src dst val s = (Inr u, s')"
  shows "conserved s'"
proof (cases "src = 0")
  case True
  note src = True
  from assms(2) src obtain t where t: "checked_add (totalSupply s) val = Some t"
    by (auto simp: ledger_update_def split: option.splits)
  then have nov: "unat (totalSupply s) + unat val < 2 ^ 256" and teq: "t = totalSupply s + val"
    by (auto simp: checked_add_def split: if_splits)
  have ut: "unat t = unat (totalSupply s) + unat val"
    using nov teq by (simp add: unat_add_lem [THEN iffD1])
  show ?thesis
  proof (cases "dst = 0")
    case True
    with assms src t have s': "s' = emit (Transfer 0 0 val) (s\<lparr>totalSupply := t - val\<rparr>)"
      by (auto simp: ledger_update_def)
    have "t - val = totalSupply s" using teq by simp
    with assms(1) show ?thesis
      by (simp add: s' conserved_def emit_def sum_balances_def totalMinted_def totalBurned_def)
  next
    case False
    with assms src t have s': "s' = emit (Transfer 0 dst val)
        (s\<lparr>totalSupply := t, balances := (balances s)(dst := balances s dst + val)\<rparr>)"
      by (auto simp: ledger_update_def)
    have "unat (balances s dst) \<le> unat (totalSupply s)"
      using assms(1) bal_le_sum [of s dst] by (simp add: conserved_def)
    with nov have ub: "unat (balances s dst + val) = unat (balances s dst) + unat val"
      by (simp add: unat_add_lem [THEN iffD1])
    have "sum_balances (s\<lparr>balances := (balances s)(dst := balances s dst + val)\<rparr>) + unat (balances s dst)
         = sum_balances s + unat (balances s dst + val)"
      by (rule sum_balances_upd)
    with ub have sb: "sum_balances (s\<lparr>balances := (balances s)(dst := balances s dst + val)\<rparr>)
         = sum_balances s + unat val" by simp
    have sb': "sum_balances s' = sum_balances s + unat val"
      using sb by (simp add: s' sum_balances_def emit_def)
    show ?thesis using assms(1) sb' ut False
      by (simp add: conserved_def s' emit_def totalMinted_def totalBurned_def)
  qed
next
  case False
  note src = False
  from assms(2) src have ge: "val \<le> balances s src"
    by (auto simp: ledger_update_def split: if_splits)
  then have us: "unat (balances s src - val) = unat (balances s src) - unat val"
    and le: "unat val \<le> unat (balances s src)"
    by (simp_all add: unat_sub word_le_nat_alt)
  from ge have nlt: "\<not> balances s src < val" by (simp add: not_less)
  let ?s1 = "s\<lparr>balances := (balances s)(src := balances s src - val)\<rparr>"
  have "sum_balances ?s1 + unat (balances s src) = sum_balances s + unat (balances s src - val)"
    by (rule sum_balances_upd)
  with us le have sb1: "sum_balances ?s1 + unat val = sum_balances s" by simp
  show ?thesis
  proof (cases "dst = 0")
    case True
    with assms src nlt have s': "s' = emit (Transfer src 0 val) (?s1\<lparr>totalSupply := totalSupply s - val\<rparr>)"
      by (auto simp: ledger_update_def)
    have sb': "sum_balances s' + unat val = sum_balances s"
      using sb1 by (simp add: s' sum_balances_def emit_def)
    have "unat val \<le> unat (totalSupply s)"
      using le assms(1) bal_le_sum [of s src] by (simp add: conserved_def)
    then have "unat (totalSupply s - val) = unat (totalSupply s) - unat val"
      by (simp add: unat_sub word_le_nat_alt)
    with assms(1) sb' src show ?thesis
      by (simp add: conserved_def s' emit_def totalMinted_def totalBurned_def)
  next
    case False
    with assms src nlt have s': "s' = emit (Transfer src dst val)
         (?s1\<lparr>balances := (balances ?s1)(dst := balances ?s1 dst + val)\<rparr>)"
      by (auto simp: ledger_update_def)
    have "unat (balances ?s1 dst) \<le> sum_balances ?s1" by (rule bal_le_sum)
    with sb1 have "unat (balances ?s1 dst) + unat val \<le> sum_balances s" by simp
    moreover have "sum_balances s < 2 ^ 256"
      using assms(1) unat_lt [of "totalSupply s"] by (simp add: conserved_def)
    ultimately have ub: "unat (balances ?s1 dst + val) = unat (balances ?s1 dst) + unat val"
      by (simp add: unat_add_lem [THEN iffD1])
    have "sum_balances (?s1\<lparr>balances := (balances ?s1)(dst := balances ?s1 dst + val)\<rparr>) + unat (balances ?s1 dst)
        = sum_balances ?s1 + unat (balances ?s1 dst + val)"
      by (rule sum_balances_upd)
    with ub sb1 have "sum_balances (?s1\<lparr>balances := (balances ?s1)(dst := balances ?s1 dst + val)\<rparr>)
        = sum_balances s" by simp
    then have sb': "sum_balances s' = sum_balances s"
      by (simp add: s' sum_balances_def emit_def)
    show ?thesis using assms(1) sb' src False
      by (simp add: conserved_def s' emit_def totalMinted_def totalBurned_def)
  qed
qed

lemma conserved_upd:
  "conserved (s\<lparr>allowances := x1\<rparr>) = conserved s"
  "conserved (s\<lparr>entered := x2\<rparr>) = conserved s"
  "conserved (s\<lparr>ENERGY_TO_CREDIT_CONVERSION := x3\<rparr>) = conserved s"
  "conserved (s\<lparr>GovtWallet := x4\<rparr>) = conserved s"
  "conserved (s\<lparr>FloorPricePerToken := x5\<rparr>) = conserved s"
  "conserved (s\<lparr>smartMeterData := x6\<rparr>) = conserved s"
  "conserved (s\<lparr>registeredDevices := x7\<rparr>) = conserved s"
  "conserved (s\<lparr>sellOrders := x8\<rparr>) = conserved s"
  by (simp_all add: conserved_def sum_balances_def totalMinted_def totalBurned_def)

lemma conserved_emit:
  "minted_of e = 0 \<Longrightarrow> burned_of e = 0 \<Longrightarrow> conserved (emit e s) = conserved s"
  by (simp add: conserved_def sum_balances_def totalMinted_def totalBurned_def emit_def)

lemma ledger_mint_conserved:
  "conserved s \<Longrightarrow> ledger_mint a v s = (Inr u, s') \<Longrightarrow> conserved s'"
  by (auto simp: ledger_mint_def split: if_splits dest: ledger_update_conserved)

lemma ledger_burn_conserved:
  "conserved s \<Longrightarrow> ledger_burn a v s = (Inr u, s') \<Longrightarrow> conserved s'"
  by (auto simp: ledger_burn_def split: if_splits dest: ledger_update_conserved)

lemma ledger_transfer_conserved:
  "conserved s \<Longrightarrow> ledger_transfer a b v s = (Inr u, s') \<Longrightarrow> conserved s'"
  by (auto simp: ledger_transfer_def split: if_splits dest: ledger_update_conserved)

lemma transfer_conserved:
  "conserved s \<Longrightarrow> transfer sender d v s = (Inr u, s') \<Longrightarrow> conserved s'"
  by (auto simp: transfer_def split: prod.splits sum.splits dest: ledger_transfer_conserved)

lemma approve_conserved:
  "conserved s \<Longrightarrow> approve sender sp v s = (Inr u, s') \<Longrightarrow> conserved s'"
  by (auto simp: approve_def conserved_emit conserved_upd split: if_splits)

lemma transferFrom_conserved:
  assumes "conserved s" and "transferFrom sender f d v s = (Inr u, s')"
  shows "conserved s'"
proof -
  let ?s1 = "s\<lparr>allowances := (allowances s)(f := (allowances s f)(sender := allowance s f sender - v))\<rparr>"
  have c1: "conserved ?s1" using assms(1) by (simp add: conserved_upd)
  from assms(2) have "transfer f d v s = (Inr u, s') \<or> transfer f d v ?s1 = (Inr u, s')"
    by (auto simp: transferFrom_def Let_def split: if_splits)
  then show ?thesis using assms(1) c1 by (auto dest: transfer_conserved)
qed

lemma onlyOwner_conserved:
  assumes "\<And>s s' u. conserved s \<Longrightarrow> body s = (Inr u, s') \<Longrightarrow> conserved s'"
    and "conserved s" and "onlyOwner sender body s = (Inr u, s')"
  shows "conserved s'"
  using assms by (auto simp: onlyOwner_def split: if_splits)

lemma nonReentrant_conserved:
  assumes "\<And>s s' u. conserved s \<Longrightarrow> body s = (Inr u, s') \<Longrightarrow> conserved s'"
    and "conserved s" and "nonReentrant body s = (Inr u, s')"
  shows "conserved s'"
proof -
  from assms(3) obtain s1 where b: "body (s\<lparr>entered := True\<rparr>) = (Inr u, s1)"
    and s': "s' = s1\<lparr>entered := False\<rparr>"
    by (auto simp: nonReentrant_def split: if_splits prod.splits sum.splits)
  have "conserved (s\<lparr>entered := True\<rparr>)" using assms(2) by (simp add: conserved_upd)
  then have "conserved s1" using b by (rule assms(1))
  then show ?thesis by (simp add: s' conserved_upd)
qed

lemma reduceOrder_conserved:
  "conserved s \<Longrightarrow> reduceOrder i a s = (Inr u, s') \<Longrightarrow> conserved s'"
  by (auto simp: reduceOrder_def Let_def conserved_upd split: if_splits option.splits)

lemma secondPass_conserved:
  "conserved s \<Longrightarrow> secondPass es s = (Inr u, s') \<Longrightarrow> conserved s'"
proof (induction es arbitrary: s)
  case Nil
  then show ?case by simp
next
  case (Cons e es)
  obtain i a p where e: "e = (i, a, p)" by (cases e)
  from Cons.prems(2) obtain s1 where r: "reduceOrder i a s = (Inr (), s1)"
    and rest: "secondPass es s1 = (Inr u, s')"
    by (auto simp: e split: prod.splits sum.splits)
  from Cons.prems(1) r have "conserved s1" by (rule reduceOrder_conserved)
  then show ?case using rest by (rule Cons.IH)
qed

lemma earnCarbonCredit_conserved:
  assumes "conserved s" and "earnCarbonCredit sender e t s = (Inr u, s')"
  shows "conserved s'"
proof -
  from assms(2) obtain r s1 where
    m: "ledger_mint sender u (s\<lparr>smartMeterData := (smartMeterData s)(sender := (smartMeterData s sender)(t := r))\<rparr>) = (Inr (), s1)"
    and s': "s' = emit (CarbonCreditsMinted sender e u) s1"
    by (auto simp: earnCarbonCredit_def Let_def split: if_splits option.splits sum.splits prod.splits)
  have "conserved (s\<lparr>smartMeterData := (smartMeterData s)(sender := (smartMeterData s sender)(t := r))\<rparr>)"
    using assms(1) by (simp add: conserved_upd)
  then have "conserved s1" using m by (rule ledger_mint_conserved)
  then show ?thesis by (simp add: s' conserved_emit)
qed

lemma UtilizeCarbonCredit_body_conserved:
  "conserved s \<Longrightarrow> UtilizeCarbonCredit_body sender a s = (Inr u, s') \<Longrightarrow> conserved s'"
  by (auto simp: UtilizeCarbonCredit_body_def split: if_splits dest: ledger_burn_conserved)

lemma forget_Inr: "forget r = (Inr u, s') \<Longrightarrow> \<exists>x. r = (Inr x, s')"
  by (auto simp: forget_def split: prod.splits sum.splits)

lemma callback_dispatch_conserved:
  assumes "conserved s" and "callback_dispatch c s = (Inr u, s')"
  shows "conserved s'"
proof (cases c)
  case (CbRegisterDevice sender device)
  with assms show ?thesis
    by (auto simp: registerDevice_def onlyOwner_def conserved_emit conserved_upd split: if_splits)
next
  case (CbDeregisterDevice sender device)
  with assms show ?thesis
    by (auto simp: deregisterDevice_def onlyOwner_def conserved_emit conserved_upd split: if_splits)
next
  case (CbChangeEnergyToCreditRatio sender r)
  with assms show ?thesis
    by (auto simp: changeEnergyToCreditRatio_def onlyOwner_def conserved_upd split: if_splits)
next
  case (CbChangeGovtWallet sender a)
  with assms show ?thesis
    by (auto simp: changeGovtWallet_def onlyOwner_def conserved_upd split: if_splits)
next
  case (CbChangeFloorPricePerToken sender p)
  with assms show ?thesis
    by (auto simp: changeFloorPricePerToken_def onlyOwner_def conserved_upd split: if_splits)
next
  case (CbLogSmartMeterData sender p t e)
  with assms show ?thesis
    by (auto simp: logSmartMeterData_def conserved_emit conserved_upd
             dest!: forget_Inr split: if_splits)
next
  case (CbEarnCarbonCredit sender e t)
  with assms show ?thesis
    by (auto dest!: forget_Inr dest: earnCarbonCredit_conserved)
next
  case (CbPlaceSellOrder sender a p)
  with assms show ?thesis
    by (auto simp: placeSellOrder_def Let_def conserved_emit conserved_upd
             dest!: forget_Inr split: if_splits)
next
  case (CbOwnerBurnCredits sender a v r)
  with assms show ?thesis
    by (auto simp: OwnerburnCredits_def onlyOwner_def conserved_emit
             split: if_splits prod.splits sum.splits dest: ledger_burn_conserved)
next
  case (CbMintCCT sender a v)
  with assms show ?thesis
    by (auto simp: mintCCT_def onlyOwner_def conserved_emit
             split: if_splits prod.splits sum.splits dest: ledger_mint_conserved)
next
  case (CbTransfer sender d v)
  with assms show ?thesis by (auto dest!: forget_Inr dest: transfer_conserved)
next
  case (CbApprove sender sp v)
  with assms show ?thesis by (auto dest!: forget_Inr dest: approve_conserved)
next
  case (CbTransferFrom sender f d v)
  with assms show ?thesis by (auto dest!: forget_Inr dest: transferFrom_conserved)
qed

lemma callbacks_conserved: "conserved s \<Longrightarrow> conserved (callbacks cs s)"
proof (induction cs arbitrary: s)
  case Nil
  then show ?case by simp
next
  case (Cons c cs)
  have "conserved (snd (transact (callback_dispatch c) s))"
  proof (cases "callback_dispatch c s")
    case (Pair r s1)
    show ?thesis
    proof (cases r)
      case (Inl e)
      with Pair Cons.prems show ?thesis by (simp add: transact_def)
    next
      case (Inr u)
      with Pair callback_dispatch_conserved [OF Cons.prems, of c u s1] show ?thesis
        by (simp add: transact_def)
    qed
  qed
  then show ?case by (simp add: Cons.IH)
qed

lemma thirdPass_conserved:
  "conserved s \<Longrightarrow> thirdPass sender pay reentry n es s = (Inr u, s') \<Longrightarrow> conserved s'"
proof (induction es arbitrary: s n)
  case Nil
  then show ?case by simp
next
  case (Cons e es)
  obtain i a p where e: "e = (i, a, p)" by (cases e)
  from Cons.prems(2) obtain s1 c where t: "ledger_transfer (seller (sellOrders s ! i)) sender a s = (Inr (), s1)"
    and rest: "thirdPass sender pay reentry (Suc n) es
                 (emit (SellOrderFulfilled i sender a c)
                    (callbacks (reentry n (seller (sellOrders s ! i)) c) s1)) = (Inr u, s')"
    by (auto simp: e Let_def split: if_splits option.splits prod.splits sum.splits)
  from Cons.prems(1) t have "conserved s1" by (rule ledger_transfer_conserved)
  then have "conserved (callbacks (reentry n (seller (sellOrders s ! i)) c) s1)"
    by (rule callbacks_conserved)
  then have "conserved (emit (SellOrderFulfilled i sender a c)
                    (callbacks (reentry n (seller (sellOrders s ! i)) c) s1))"
    by (simp add: conserved_emit)
  then show ?case using rest by (rule Cons.IH)
qed

lemma fulfillBatchOrders_body_conserved:
  assumes "conserved s" and "fulfillBatchOrders_body sender v pay reentry is as ps s = (Inr u, s')"
  shows "conserved s'"
proof -
  let ?es = "zip is (zip as ps)"
  from assms(2) obtain s1 s2 c where p2: "secondPass ?es s = (Inr (), s1)"
    and p3: "thirdPass sender pay reentry 0 ?es s1 = (Inr (), s2)"
    and s': "s' = emit (BatchOrdersFulfilled sender is c) s2"
    by (auto simp: fulfillBatchOrders_body_def Let_def split: if_splits sum.splits prod.splits)
  from assms(1) p2 have "conserved s1" by (rule secondPass_conserved)
  then have "conserved s2" using p3 by (rule thirdPass_conserved)
  then show ?thesis by (simp add: s' conserved_emit)
qed

lemma fulfillSellOrder_body_conserved:
  assumes "conserved s" and "fulfillSellOrder_body sender v pay reentry i a s = (Inr u, s')"
  shows "conserved s'"
proof -
  from assms(2) obtain s1 s2 where r: "reduceOrder i a s = (Inr (), s1)"
    and t: "ledger_transfer (seller (sellOrders s ! i)) sender a s1 = (Inr (), s2)"
    and s': "s' = emit (SellOrderFulfilled i sender a v)
                    (callbacks (reentry 0 (seller (sellOrders s ! i)) v) s2)"
    by (auto simp: fulfillSellOrder_body_def Let_def split: if_splits option.splits sum.splits prod.splits)
  from assms(1) r have "conserved s1" by (rule reduceOrder_conserved)
  then have "conserved s2" using t by (rule ledger_transfer_conserved)
  then have "conserved (callbacks (reentry 0 (seller (sellOrders s ! i)) v) s2)"
    by (rule callbacks_conserved)
  then show ?thesis by (simp add: s' conserved_emit)
qed

lemma dispatch_conserved:
  assumes "conserved s" and "dispatch c s = (Inr u, s')"
  shows "conserved s'"
proof (cases c)
  case (RegisterDevice sender device)
  with assms show ?thesis
    by (auto simp: registerDevice_def onlyOwner_def conserved_emit conserved_upd split: if_splits)
next
  case (DeregisterDevice sender device)
  with assms show ?thesis
    by (auto simp: deregisterDevice_def onlyOwner_def conserved_emit conserved_upd split: if_splits)
next
  case (ChangeEnergyToCreditRatio sender r)
  with assms show ?thesis
    by (auto simp: changeEnergyToCreditRatio_def onlyOwner_def conserved_upd split: if_splits)
next
  case (ChangeGovtWallet sender a)
  with assms show ?thesis
    by (auto simp: changeGovtWallet_def onlyOwner_def conserved_upd split: if_splits)
next
  case (ChangeFloorPricePerToken sender p)
  with assms show ?thesis
    by (auto simp: changeFloorPricePerToken_def onlyOwner_def conserved_upd split: if_splits)
next
  case (LogSmartMeterData sender p t e)
  with assms show ?thesis
    by (auto simp: logSmartMeterData_def conserved_emit conserved_upd
             dest!: forget_Inr split: if_splits)
next
  case (EarnCarbonCredit sender e t)
  with assms show ?thesis
    by (auto dest!: forget_Inr dest: earnCarbonCredit_conserved)
next
  case (PlaceSellOrder sender a p)
  with assms show ?thesis
    by (auto simp: placeSellOrder_def Let_def conserved_emit conserved_upd
             dest!: forget_Inr split: if_splits)
next
  case (FulfillSellOrder sender v pay reentry i a)
  with assms obtain x where "nonReentrant (fulfillSellOrder_body sender v pay reentry i a) s = (Inr x, s')"
    by (auto simp: fulfillSellOrder_def dest!: forget_Inr)
  with assms(1) show ?thesis
    by (rule nonReentrant_conserved [rotated]) (rule fulfillSellOrder_body_conserved)
next
  case (FulfillBatchOrders sender v pay reentry "is" as ps)
  with assms have "nonReentrant (fulfillBatchOrders_body sender v pay reentry is as ps) s = (Inr u, s')"
    by (simp add: fulfillBatchOrders_def)
  with assms(1) show ?thesis
    by (rule nonReentrant_conserved [rotated]) (rule fulfillBatchOrders_body_conserved)
next
  case (OwnerBurnCredits sender a v r)
  with assms show ?thesis
    by (auto simp: OwnerburnCredits_def onlyOwner_def conserved_emit
             split: if_splits prod.splits sum.splits dest: ledger_burn_conserved)
next
  case (UtilizeCredit sender v)
  with assms have "nonReentrant (UtilizeCarbonCredit_body sender v) s = (Inr u, s')"
    by (simp add: UtilizeCarbonCredit_def)
  with assms(1) show ?thesis
    by (rule nonReentrant_conserved [rotated]) (rule UtilizeCarbonCredit_body_conserved)
next
  case (MintCCT sender a v)
  with assms show ?thesis
    by (auto simp: mintCCT_def onlyOwner_def conserved_emit
             split: if_splits prod.splits sum.splits dest: ledger_mint_conserved)
next
  case (TransferCall sender d v)
  with assms show ?thesis by (auto dest!: forget_Inr dest: transfer_conserved)
next
  case (ApproveCall sender sp v)
  with assms show ?thesis by (auto dest!: forget_Inr dest: approve_conserved)
next
  case (TransferFromCall sender f d v)
  with assms show ?thesis by (auto dest!: forget_Inr dest: transferFrom_conserved)
qed

lemma step_conserved: "conserved s \<Longrightarrow> conserved (step c s)"
proof -
  assume c: "conserved s"
  show ?thesis
  proof (cases "dispatch c s")
    case (Pair r s1)
    show ?thesis
    proof (cases r)
      case (Inl e)
      with Pair c show ?thesis by (simp add: step_def transact_def)
    next
      case (Inr u)
      with Pair c dispatch_conserved [of s c u s1] show ?thesis
        by (simp add: step_def transact_def)
    qed
  qed
qed

lemma run_conserved: "conserved s \<Longrightarrow> conserved (run s cs)"
  by (induction cs arbitrary: s) (simp_all add: step_conserved)

lemma constructor_conserved: "conserved (constructor d a)"
  by (simp add: conserved_def constructor_def sum_balances_def totalMinted_def totalBurned_def)

text \<open>
  Claim C8. After every sequence of calls to the freshly deployed contract (minting by
  claims and by the owner, burning by holders and by the owner, transfers, single and
  batch fulfilment, and every other call), the sum of all account balances equals the
  cumulative amount minted minus the cumulative amount burned. Every point of a run is
  the end of a shorter run, so this holds at every point. The total supply equals the
  same sum.
\<close>

theorem conservation:
  "sum_balances (run (constructor deployer addr) cs) =
     totalMinted (run (constructor deployer addr) cs) - totalBurned (run (constructor deployer addr) cs)
   \<and> totalBurned (run (constructor deployer addr) cs) \<le> totalMinted (run (constructor deployer addr) cs)
   \<and> unat (totalSupply (run (constructor deployer addr) cs)) = sum_balances (run (constructor deployer addr) cs)"
proof -
  have "conserved (run (constructor deployer addr) cs)"
    by (rule run_conserved) (rule constructor_conserved)
  then show ?thesis by (simp add: conserved_def) arith
qed

subsection \<open>Evaluation and the ledger's successful steps\<close>

lemmas eval_defs = step_def transact_def forget_def onlyOwner_def nonReentrant_def constructor_def
  emit_def balanceOf_def allowance_def
  ledger_mint_def ledger_burn_def ledger_transfer_def ledger_update_def
  checked_add_def checked_sub_def checked_mul_def checked_div_def SCALE_def

lemma ledger_burn_ok:
  "account \<noteq> 0 \<Longrightarrow> val \<le> balances s account \<Longrightarrow>
   ledger_burn account val s =
     (Inr (), emit (Transfer account 0 val)
        (s\<lparr>balances := (balances s)(account := balances s account - val),
           totalSupply := totalSupply s - val\<rparr>))"
  by (simp add: ledger_burn_def ledger_update_def not_less [symmetric])

lemma ledger_mint_ok:
  "account \<noteq> 0 \<Longrightarrow> unat (totalSupply s) + unat val < 2 ^ 256 \<Longrightarrow>
   ledger_mint account val s =
     (Inr (), emit (Transfer 0 account val)
        (s\<lparr>totalSupply := totalSupply s + val,
           balances := (balances s)(account := balances s account + val)\<rparr>))"
  by (simp add: ledger_mint_def ledger_update_def checked_add_def)

lemma ledger_transfer_ok:
  "src \<noteq> 0 \<Longrightarrow> dst \<noteq> 0 \<Longrightarrow> val \<le> balances s src \<Longrightarrow>
   ledger_transfer src dst val s =
     (Inr (), emit (Transfer src dst val)
        (s\<lparr>balances := (balances s)(src := balances s src - val,
              dst := ((balances s)(src := balances s src - val)) dst + val)\<rparr>))"
  by (simp add: ledger_transfer_def ledger_update_def not_less [symmetric])

lemma nonReentrant_free:
  "\<not> entered s \<Longrightarrow> nonReentrant body s =
     (case body (s\<lparr>entered := True\<rparr>) of
        (Inl e, s') \<Rightarrow> (Inl e, s')
      | (Inr x, s') \<Rightarrow> (Inr x, s'\<lparr>entered := False\<rparr>))"
  by (simp add: nonReentrant_def)


lemma unat_sub_le: "(b::uint256) \<le> a \<Longrightarrow> unat (a - b) = unat a - unat b"
  by (simp add: unat_sub)

lemma transact_Inl: "body s = (Inl e, s1) \<Longrightarrow> transact body s = (Inl e, s)"
  by (simp add: transact_def)

lemma transact_Inr: "body s = (Inr x, s1) \<Longrightarrow> transact body s = (Inr x, s1)"
  by (simp add: transact_def)

subsection \<open>Burning one's own credits\<close>

text \<open>
  Claim C7, as amended. For a caller other than the zero address, while no guarded call
  is in progress and the ledger is conserved: \<^verbatim>\<open>UtilizeCarbonCredit\<close> fails
  \<open>InvalidAmount\<close> for the amount zero; it fails \<open>InsufficientBalance\<close> exactly when
  the caller's balance is below the amount; for a positive amount not above the balance
  it succeeds, decreasing the caller's balance and the total supply by exactly the
  amount and leaving every other balance as it was.
\<close>

theorem UtilizeCarbonCredit_amended:
  assumes free: "\<not> entered s" and sender: "sender \<noteq> 0" and cons: "conserved s"
  shows "(amt = 0 \<longrightarrow> transact (UtilizeCarbonCredit sender amt) s = (Inl InvalidAmount, s))
       \<and> (0 < amt \<and> balanceOf s sender < amt \<longrightarrow>
            transact (UtilizeCarbonCredit sender amt) s = (Inl InsufficientBalance, s))
       \<and> (0 < amt \<and> amt \<le> balanceOf s sender \<longrightarrow>
            (\<exists>s'. transact (UtilizeCarbonCredit sender amt) s = (Inr (), s')
               \<and> unat (balanceOf s' sender) + unat amt = unat (balanceOf s sender)
               \<and> unat (totalSupply s') + unat amt = unat (totalSupply s)
               \<and> (\<forall>a. a \<noteq> sender \<longrightarrow> balanceOf s' a = balanceOf s a)))
       \<and> (fst (transact (UtilizeCarbonCredit sender amt) s) = Inl InsufficientBalance
            \<longleftrightarrow> balanceOf s sender < amt)"
proof -
  have zero: "amt = 0 \<Longrightarrow> transact (UtilizeCarbonCredit sender amt) s = (Inl InvalidAmount, s)"
    using free
    by (simp add: transact_def UtilizeCarbonCredit_def nonReentrant_def UtilizeCarbonCredit_body_def)
  have low: "0 < amt \<Longrightarrow> balanceOf s sender < amt \<Longrightarrow>
             transact (UtilizeCarbonCredit sender amt) s = (Inl InsufficientBalance, s)"
    using free
    by (simp add: transact_def UtilizeCarbonCredit_def nonReentrant_def UtilizeCarbonCredit_body_def
                  balanceOf_def not_le)
  have ok: "\<exists>s'. transact (UtilizeCarbonCredit sender amt) s = (Inr (), s')
               \<and> unat (balanceOf s' sender) + unat amt = unat (balanceOf s sender)
               \<and> unat (totalSupply s') + unat amt = unat (totalSupply s)
               \<and> (\<forall>a. a \<noteq> sender \<longrightarrow> balanceOf s' a = balanceOf s a)"
    if pos: "0 < amt" and le: "amt \<le> balanceOf s sender"
  proof -
    from le have le': "amt \<le> balances s sender" by (simp add: balanceOf_def)
    then have ule: "unat amt \<le> unat (balances s sender)" by (simp add: word_le_nat_alt)
    have "unat (balances s sender) \<le> unat (totalSupply s)"
      using cons bal_le_sum [of s sender] by (simp add: conserved_def)
    with ule have utle: "unat amt \<le> unat (totalSupply s)" by simp
    then have tle: "amt \<le> totalSupply s" by (simp add: word_le_nat_alt)
    let ?s' = "emit (Transfer sender 0 amt)
        (s\<lparr>entered := True, balances := (balances s)(sender := balances s sender - amt),
           totalSupply := totalSupply s - amt\<rparr>)\<lparr>entered := False\<rparr>"
    have run: "transact (UtilizeCarbonCredit sender amt) s = (Inr (), ?s')"
      using free sender pos le'
      by (simp add: transact_def UtilizeCarbonCredit_def nonReentrant_def
                    UtilizeCarbonCredit_body_def balanceOf_def ledger_burn_ok)
    have "unat (balanceOf ?s' sender) + unat amt = unat (balanceOf s sender)"
      using ule by (simp add: balanceOf_def emit_def unat_sub_le [OF le'])
    moreover have "unat (totalSupply ?s') + unat amt = unat (totalSupply s)"
      using utle by (simp add: emit_def unat_sub_le [OF tle])
    moreover have "\<forall>a. a \<noteq> sender \<longrightarrow> balanceOf ?s' a = balanceOf s a"
      by (simp add: balanceOf_def emit_def)
    ultimately show ?thesis using run by blast
  qed
  have iff: "fst (transact (UtilizeCarbonCredit sender amt) s) = Inl InsufficientBalance
            \<longleftrightarrow> balanceOf s sender < amt"
  proof (cases "amt = 0")
    case True
    with zero show ?thesis by auto
  next
    case False
    then have pos: "0 < amt" by (simp add: word_neq_0_conv)
    show ?thesis
    proof (cases "balanceOf s sender < amt")
      case True
      with pos low show ?thesis by simp
    next
      case False
      then have "amt \<le> balanceOf s sender" by (simp add: not_less)
      with pos ok obtain s' where "transact (UtilizeCarbonCredit sender amt) s = (Inr (), s')" by blast
      with False show ?thesis by simp
    qed
  qed
  from zero low ok iff show ?thesis by blast
qed

theorem UtilizeCarbonCredit_amended_witness:
  "\<not> entered (run (constructor 1 2) [MintCCT 1 5 10]) \<and> (5 :: address) \<noteq> 0
   \<and> conserved (run (constructor 1 2) [MintCCT 1 5 10])
   \<and> (0 :: uint256) < 3 \<and> (3 :: uint256) \<le> balanceOf (run (constructor 1 2) [MintCCT 1 5 10]) 5
   \<and> (\<exists>s'. transact (UtilizeCarbonCredit 5 3) (run (constructor 1 2) [MintCCT 1 5 10]) = (Inr (), s')
         \<and> unat (balanceOf s' 5) + unat (3 :: uint256) = 10)"
proof -
  let ?s = "run (constructor 1 2) [MintCCT 1 5 10]"
  have h1: "\<not> entered ?s" by (simp add: eval_defs mintCCT_def)
  have h2: "(5 :: address) \<noteq> 0" by simp
  have h3: "conserved ?s" by (rule run_conserved) (rule constructor_conserved)
  have h4: "(0 :: uint256) < 3 \<and> (3 :: uint256) \<le> balanceOf ?s 5" by (simp add: eval_defs mintCCT_def)
  have b: "unat (balanceOf ?s 5) = 10" by (simp add: eval_defs mintCCT_def)
  from UtilizeCarbonCredit_amended [OF h1 h2 h3, of 3] h4 b h1 h2 h3 show ?thesis by auto
qed

text \<open>
  Claim C7, as stated, fails: the amount zero does not exceed the caller's balance of 10,
  and the call is refused with \<open>InvalidAmount\<close>, a precondition other than the balance.
\<close>

theorem UtilizeCarbonCredit_zero_counterexample:
  "(0 :: uint256) \<le> balanceOf (run (constructor 1 2) [MintCCT 1 5 10]) 5
   \<and> balanceOf (run (constructor 1 2) [MintCCT 1 5 10]) 5 = 10
   \<and> transact (UtilizeCarbonCredit 5 0) (run (constructor 1 2) [MintCCT 1 5 10])
       = (Inl InvalidAmount, run (constructor 1 2) [MintCCT 1 5 10])"
  by (simp add: eval_defs mintCCT_def UtilizeCarbonCredit_def UtilizeCarbonCredit_body_def)

subsection \<open>Placing a sell order\<close>

lemma placeSellOrder_cases:
  "placeSellOrder sender a p s =
     (if p < FloorPricePerToken s then (Inl PriceBelowFloor, s)
      else if balanceOf s sender < a then (Inl InsufficientBalance, s)
      else if allowance s sender (this s) < a then (Inl InsufficientAllowance, s)
      else (Inr (length (sellOrders s)),
            emit (SellOrderPlaced (length (sellOrders s)) sender a p)
              (s\<lparr>sellOrders := sellOrders s @
                  [\<lparr>seller = sender, amount = a, pricePerToken = p, fulfilled = False\<rparr>]\<rparr>)))"
  by (simp add: placeSellOrder_def Let_def not_le)

text \<open>
  Claim C5, as amended. \<^verbatim>\<open>placeSellOrder\<close> makes its three checks in the order of the
  source and reports the first that fails: it fails \<open>PriceBelowFloor\<close> exactly when the
  price is below the floor price; \<open>InsufficientBalance\<close> exactly when the price is not
  below the floor and the seller's balance is below the amount; \<open>InsufficientAllowance\<close>
  exactly when those two checks pass and the seller's allowance to the contract is below
  the amount. Otherwise it appends the order with the given fields and
  \<open>fulfilled = False\<close>, returns its position, the new length of the array minus one,
  and leaves the earlier orders and the ledger as they were. A failing call changes
  nothing.
\<close>

theorem placeSellOrder_amended:
  "(fst (transact (placeSellOrder sender a p) s) = Inl PriceBelowFloor
      \<longleftrightarrow> p < FloorPricePerToken s)
   \<and> (fst (transact (placeSellOrder sender a p) s) = Inl InsufficientBalance
      \<longleftrightarrow> FloorPricePerToken s \<le> p \<and> balanceOf s sender < a)
   \<and> (fst (transact (placeSellOrder sender a p) s) = Inl InsufficientAllowance
      \<longleftrightarrow> FloorPricePerToken s \<le> p \<and> a \<le> balanceOf s sender
          \<and> allowance s sender (this s) < a)
   \<and> (FloorPricePerToken s \<le> p \<and> a \<le> balanceOf s sender \<and> a \<le> allowance s sender (this s)
      \<longrightarrow> (\<exists>s'. transact (placeSellOrder sender a p) s = (Inr (length (sellOrders s')  - 1), s')
             \<and> sellOrders s' = sellOrders s @
                  [\<lparr>seller = sender, amount = a, pricePerToken = p, fulfilled = False\<rparr>]
             \<and> length (sellOrders s') - 1 = length (sellOrders s)
             \<and> (\<forall>i < length (sellOrders s). sellOrders s' ! i = sellOrders s ! i)
             \<and> balances s' = balances s \<and> allowances s' = allowances s
             \<and> totalSupply s' = totalSupply s))
   \<and> (\<forall>e. fst (transact (placeSellOrder sender a p) s) = Inl e
          \<longrightarrow> snd (transact (placeSellOrder sender a p) s) = s)"
  by (auto simp: transact_def placeSellOrder_cases emit_def not_less nth_append)

theorem placeSellOrder_amended_witness:
  "FloorPricePerToken (run (constructor 1 2) [MintCCT 1 5 10, ApproveCall 5 2 10]) \<le> 10000000
   \<and> (10 :: uint256) \<le> balanceOf (run (constructor 1 2) [MintCCT 1 5 10, ApproveCall 5 2 10]) 5
   \<and> (10 :: uint256) \<le> allowance (run (constructor 1 2) [MintCCT 1 5 10, ApproveCall 5 2 10]) 5
         (this (run (constructor 1 2) [MintCCT 1 5 10, ApproveCall 5 2 10]))
   \<and> (\<exists>s'. transact (placeSellOrder 5 10 10000000)
              (run (constructor 1 2) [MintCCT 1 5 10, ApproveCall 5 2 10]) = (Inr 0, s')
         \<and> sellOrders s' =
              [\<lparr>seller = 5, amount = 10, pricePerToken = 10000000, fulfilled = False\<rparr>])"
proof -
  let ?s = "run (constructor 1 2) [MintCCT 1 5 10, ApproveCall 5 2 10]"
  have h: "FloorPricePerToken ?s \<le> 10000000 \<and> (10 :: uint256) \<le> balanceOf ?s 5
           \<and> (10 :: uint256) \<le> allowance ?s 5 (this ?s)"
    by (simp add: eval_defs mintCCT_def approve_def)
  have e: "sellOrders ?s = []"
    by (simp add: eval_defs mintCCT_def approve_def)
  from placeSellOrder_amended [of 5 10 10000000 ?s] h e show ?thesis by auto
qed

text \<open>
  Claim C5, as stated, fails: the seller's balance 0 is below the amount 1, and the call
  does not fail \<open>InsufficientBalance\<close> but \<open>PriceBelowFloor\<close>, the price 0 being below
  the floor. At the floor price, the seller's allowance 0 is below the amount 1, and the
  call does not fail \<open>InsufficientAllowance\<close> but \<open>InsufficientBalance\<close>.
\<close>

theorem placeSellOrder_precedence_counterexample:
  "balanceOf (constructor 1 2) 5 < 1
   \<and> fst (transact (placeSellOrder 5 1 0) (constructor 1 2)) \<noteq> Inl InsufficientBalance
   \<and> transact (placeSellOrder 5 1 0) (constructor 1 2) = (Inl PriceBelowFloor, constructor 1 2)
   \<and> allowance (constructor 1 2) 5 (this (constructor 1 2)) < 1
   \<and> fst (transact (placeSellOrder 5 1 10000000) (constructor 1 2)) \<noteq> Inl InsufficientAllowance
   \<and> transact (placeSellOrder 5 1 10000000) (constructor 1 2)
        = (Inl InsufficientBalance, constructor 1 2)"
  by (simp add: eval_defs placeSellOrder_def)

subsection \<open>Frames\<close>

text \<open>What a step of the ledger leaves alone.\<close>

lemma ledger_update_frame:
  assumes "ledger_update src dst val s = (r, s')"
  shows "sellOrders s' = sellOrders s" and "smartMeterData s' = smartMeterData s"
    and "entered s' = entered s" and "allowances s' = allowances s"
    and "ENERGY_TO_CREDIT_CONVERSION s' = ENERGY_TO_CREDIT_CONVERSION s"
    and "FloorPricePerToken s' = FloorPricePerToken s"
    and "registeredDevices s' = registeredDevices s" and "owner s' = owner s"
    and "this s' = this s"
  using assms
  by (auto simp: ledger_update_def emit_def split: if_splits option.splits)

lemma ledger_mint_frame:
  assumes "ledger_mint a val s = (r, s')"
  shows "sellOrders s' = sellOrders s" and "smartMeterData s' = smartMeterData s"
    and "entered s' = entered s"
  using assms by (auto simp: ledger_mint_def split: if_splits dest: ledger_update_frame)

lemma ledger_burn_frame:
  assumes "ledger_burn a val s = (r, s')"
  shows "sellOrders s' = sellOrders s" and "smartMeterData s' = smartMeterData s"
    and "entered s' = entered s"
  using assms by (auto simp: ledger_burn_def split: if_splits dest: ledger_update_frame)

lemma ledger_transfer_frame:
  assumes "ledger_transfer a b val s = (r, s')"
  shows "sellOrders s' = sellOrders s" and "smartMeterData s' = smartMeterData s"
    and "entered s' = entered s"
  using assms by (auto simp: ledger_transfer_def split: if_splits dest: ledger_update_frame)

lemma transfer_frame:
  assumes "transfer sender d v s = (r, s')"
  shows "sellOrders s' = sellOrders s" and "smartMeterData s' = smartMeterData s"
    and "entered s' = entered s"
  using assms
  by (auto simp: transfer_def split: prod.splits sum.splits dest: ledger_transfer_frame)

lemma approve_frame:
  assumes "approve sender sp v s = (r, s')"
  shows "sellOrders s' = sellOrders s" and "smartMeterData s' = smartMeterData s"
    and "entered s' = entered s"
  using assms by (auto simp: approve_def emit_def split: if_splits)

lemma transferFrom_frame:
  assumes "transferFrom sender f d v s = (r, s')"
  shows "sellOrders s' = sellOrders s" and "smartMeterData s' = smartMeterData s"
    and "entered s' = entered s"
proof -
  let ?s1 = "s\<lparr>allowances := (allowances s)(f := (allowances s f)(sender := allowance s f sender - v))\<rparr>"
  from assms have "s' = s \<or> transfer f d v s = (r, s') \<or> transfer f d v ?s1 = (r, s')"
    by (auto simp: transferFrom_def Let_def split: if_splits)
  then show "sellOrders s' = sellOrders s" and "smartMeterData s' = smartMeterData s"
    and "entered s' = entered s"
    by (auto dest: transfer_frame)
qed


text \<open>What the calls do to the orders and to the guard's flag.\<close>

lemma reduceOrder_Inr:
  assumes "reduceOrder j a s = (Inr u, s')"
  shows "length (sellOrders s') = length (sellOrders s)"
    and "i \<noteq> j \<Longrightarrow> sellOrders s' ! i = sellOrders s ! i"
    and "entered s' = entered s" and "smartMeterData s' = smartMeterData s"
    and "j < length (sellOrders s)" and "a \<le> amount (sellOrders s ! j)"
    and "sellOrders s' ! j = (sellOrders s ! j)\<lparr>amount := amount (sellOrders s ! j) - a,
           fulfilled := (if amount (sellOrders s ! j) - a = 0 then True
                         else fulfilled (sellOrders s ! j))\<rparr>"
  using assms
  by (auto simp: reduceOrder_def Let_def checked_sub_def split: if_splits)

lemma firstPass_valid:
  "firstPass s es c = Inr t \<Longrightarrow> (j, a, p) \<in> set es \<Longrightarrow>
   j < length (sellOrders s) \<and> \<not> fulfilled (sellOrders s ! j) \<and> 0 < a
   \<and> a \<le> amount (sellOrders s ! j) \<and> p = pricePerToken (sellOrders s ! j)"
proof (induction es arbitrary: c)
  case Nil
  then show ?case by simp
next
  case (Cons e es)
  obtain j' a' p' where e: "e = (j', a', p')" by (cases e)
  from Cons.prems(1) obtain c' where
    hd: "j' < length (sellOrders s) \<and> \<not> fulfilled (sellOrders s ! j') \<and> 0 < a'
         \<and> a' \<le> amount (sellOrders s ! j') \<and> p' = pricePerToken (sellOrders s ! j')"
    and rest: "firstPass s es c' = Inr t"
    by (auto simp: e Let_def split: if_splits option.splits)
  from Cons.prems(2) have "(j, a, p) = (j', a', p') \<or> (j, a, p) \<in> set es" by (simp add: e)
  then show ?case
  proof
    assume "(j, a, p) = (j', a', p')"
    with hd show ?thesis by simp
  next
    assume "(j, a, p) \<in> set es"
    with rest show ?thesis by (rule Cons.IH)
  qed
qed

lemma secondPass_Inr:
  "secondPass es s = (Inr u, s') \<Longrightarrow>
   length (sellOrders s') = length (sellOrders s) \<and> entered s' = entered s
   \<and> smartMeterData s' = smartMeterData s
   \<and> (i \<notin> fst ` set es \<longrightarrow> sellOrders s' ! i = sellOrders s ! i)"
proof (induction es arbitrary: s)
  case Nil
  then show ?case by simp
next
  case (Cons e es)
  obtain j a p where e: "e = (j, a, p)" by (cases e)
  from Cons.prems obtain s1 where r: "reduceOrder j a s = (Inr (), s1)"
    and rest: "secondPass es s1 = (Inr u, s')"
    by (auto simp: e split: prod.splits sum.splits)
  from rest have ih: "length (sellOrders s') = length (sellOrders s1) \<and> entered s' = entered s1
   \<and> smartMeterData s' = smartMeterData s1
   \<and> (i \<notin> fst ` set es \<longrightarrow> sellOrders s' ! i = sellOrders s1 ! i)" by (rule Cons.IH)
  with reduceOrder_Inr(1,3,4) [OF r] reduceOrder_Inr(2) [OF r, of i] show ?case by (auto simp: e)
qed

lemma callback_dispatch_keeps:
  assumes i: "i < length (sellOrders s)"
    and run: "callback_dispatch c s = (Inr u, s')"
  shows "i < length (sellOrders s') \<and> sellOrders s' ! i = sellOrders s ! i"
proof (cases c)
  case (CbRegisterDevice sender device)
  with assms show ?thesis
    by (auto simp: registerDevice_def onlyOwner_def emit_def split: if_splits)
next
  case (CbDeregisterDevice sender device)
  with assms show ?thesis
    by (auto simp: deregisterDevice_def onlyOwner_def emit_def split: if_splits)
next
  case (CbChangeEnergyToCreditRatio sender r)
  with assms show ?thesis
    by (auto simp: changeEnergyToCreditRatio_def onlyOwner_def split: if_splits)
next
  case (CbChangeGovtWallet sender a)
  with assms show ?thesis
    by (auto simp: changeGovtWallet_def onlyOwner_def split: if_splits)
next
  case (CbChangeFloorPricePerToken sender p)
  with assms show ?thesis
    by (auto simp: changeFloorPricePerToken_def onlyOwner_def split: if_splits)
next
  case (CbLogSmartMeterData sender p t e)
  with assms show ?thesis
    by (auto simp: logSmartMeterData_def emit_def dest!: forget_Inr split: if_splits)
next
  case (CbEarnCarbonCredit sender e t)
  with run obtain x where "earnCarbonCredit sender e t s = (Inr x, s')"
    by (auto dest!: forget_Inr)
  then obtain r s1 where
    m: "ledger_mint sender x (s\<lparr>smartMeterData := (smartMeterData s)(sender := (smartMeterData s sender)(t := r))\<rparr>) = (Inr (), s1)"
    and s': "s' = emit (CarbonCreditsMinted sender e x) s1"
    by (auto simp: earnCarbonCredit_def Let_def split: if_splits option.splits sum.splits prod.splits)
  from ledger_mint_frame(1) [OF m] i show ?thesis by (simp add: s' emit_def)
next
  case (CbPlaceSellOrder sender a p)
  with assms show ?thesis
    by (auto simp: placeSellOrder_cases emit_def nth_append dest!: forget_Inr split: if_splits)
next
  case (CbOwnerBurnCredits sender a v r)
  with assms show ?thesis
    by (auto simp: OwnerburnCredits_def onlyOwner_def emit_def
             split: if_splits prod.splits sum.splits dest: ledger_burn_frame(1))
next
  case (CbMintCCT sender a v)
  with assms show ?thesis
    by (auto simp: mintCCT_def onlyOwner_def emit_def
             split: if_splits prod.splits sum.splits dest: ledger_mint_frame(1))
next
  case (CbTransfer sender d v)
  with assms show ?thesis by (auto dest!: forget_Inr dest: transfer_frame(1))
next
  case (CbApprove sender sp v)
  with assms show ?thesis by (auto dest!: forget_Inr dest: approve_frame(1))
next
  case (CbTransferFrom sender f d v)
  with assms show ?thesis by (auto dest!: forget_Inr dest: transferFrom_frame(1))
qed

lemma callbacks_keeps:
  "i < length (sellOrders s) \<Longrightarrow>
   i < length (sellOrders (callbacks cs s)) \<and> sellOrders (callbacks cs s) ! i = sellOrders s ! i"
proof (induction cs arbitrary: s)
  case Nil
  then show ?case by simp
next
  case (Cons c cs)
  let ?s1 = "snd (transact (callback_dispatch c) s)"
  have 1: "i < length (sellOrders ?s1) \<and> sellOrders ?s1 ! i = sellOrders s ! i"
  proof (cases "callback_dispatch c s")
    case (Pair r s1)
    show ?thesis
    proof (cases r)
      case (Inl e)
      with Pair Cons.prems show ?thesis by (simp add: transact_def)
    next
      case (Inr u)
      with Pair callback_dispatch_keeps [OF Cons.prems, of c u s1] show ?thesis
        by (simp add: transact_def)
    qed
  qed
  then have "i < length (sellOrders ?s1)" by simp
  from Cons.IH [OF this] 1 show ?case by simp
qed

lemma thirdPass_frame:
  "thirdPass sender pay reentry n es s = (r, s') \<Longrightarrow> i < length (sellOrders s) \<Longrightarrow>
   i < length (sellOrders s') \<and> sellOrders s' ! i = sellOrders s ! i"
proof (induction es arbitrary: s n)
  case Nil
  then show ?case by simp
next
  case (Cons e es)
  obtain j a p where e: "e = (j, a, p)" by (cases e)
  note i = Cons.prems(2)
  show ?case
  proof (cases "j < length (sellOrders s)")
    case False
    with Cons.prems show ?thesis by (simp add: e)
  next
    case inr: True
    show ?thesis
    proof (cases "checked_mul a p")
      case None
      with Cons.prems inr show ?thesis by (simp add: e)
    next
      case (Some product)
      obtain r1 s1 where t: "ledger_transfer (seller (sellOrders s ! j)) sender a s = (r1, s1)"
        by (cases "ledger_transfer (seller (sellOrders s ! j)) sender a s")
      note f = ledger_transfer_frame(1) [OF t]
      show ?thesis
      proof (cases r1)
        case (Inl err)
        with Cons.prems inr Some t f show ?thesis by (simp add: e)
      next
        case (Inr v)
        show ?thesis
        proof (cases "pay n (seller (sellOrders s ! j)) (product div SCALE)")
          case False
          with Cons.prems inr Some t f Inr show ?thesis by (simp add: e)
        next
          case True
          let ?s2 = "callbacks (reentry n (seller (sellOrders s ! j)) (product div SCALE)) s1"
          from i f have "i < length (sellOrders s1)" by simp
          from callbacks_keeps [OF this] f
          have k: "i < length (sellOrders ?s2) \<and> sellOrders ?s2 ! i = sellOrders s ! i" by simp
          from True Cons.prems(1) inr Some t Inr have
            "thirdPass sender pay reentry (Suc n) es
               (emit (SellOrderFulfilled j sender a (product div SCALE)) ?s2) = (r, s')"
            by (simp add: e Let_def)
          from Cons.IH [OF this, unfolded emit_def] k show ?thesis by (simp add: emit_def)
        qed
      qed
    qed
  qed
qed

lemma fulfillSellOrder_body_Inr:
  assumes "fulfillSellOrder_body sender v pay reentry i a s = (Inr u, s')"
  shows "i < length (sellOrders s) \<and> \<not> fulfilled (sellOrders s ! i) \<and> 0 < a
    \<and> a \<le> amount (sellOrders s ! i)
    \<and> unat a * unat (pricePerToken (sellOrders s ! i)) < 2 ^ 256
    \<and> v = a * pricePerToken (sellOrders s ! i) div SCALE
    \<and> a \<le> balanceOf s (seller (sellOrders s ! i))
    \<and> pay 0 (seller (sellOrders s ! i)) v
    \<and> (\<exists>s1 s2. reduceOrder i a s = (Inr (), s1)
          \<and> ledger_transfer (seller (sellOrders s ! i)) sender a s1 = (Inr (), s2)
          \<and> s' = emit (SellOrderFulfilled i sender a v)
                    (callbacks (reentry 0 (seller (sellOrders s ! i)) v) s2))"
  using assms
  by (auto simp: fulfillSellOrder_body_def Let_def checked_mul_def
           split: if_splits sum.splits prod.splits)

lemma fulfillBatchOrders_body_Inr:
  assumes "fulfillBatchOrders_body sender v pay reentry is as ps s = (Inr u, s')"
  shows "is \<noteq> [] \<and> length is = length as \<and> length is = length ps
    \<and> firstPass s (zip is (zip as ps)) 0 = Inr v
    \<and> (\<exists>s1 s2. secondPass (zip is (zip as ps)) s = (Inr (), s1)
          \<and> thirdPass sender pay reentry 0 (zip is (zip as ps)) s1 = (Inr (), s2)
          \<and> s' = emit (BatchOrdersFulfilled sender is v) s2)"
  using assms
  by (auto simp: fulfillBatchOrders_body_def Let_def split: if_splits sum.splits prod.splits)

lemma nonReentrant_Inr:
  assumes "nonReentrant body s = (Inr u, s')"
  shows "\<not> entered s \<and> (\<exists>s1. body (s\<lparr>entered := True\<rparr>) = (Inr u, s1) \<and> s' = s1\<lparr>entered := False\<rparr>)"
  using assms by (auto simp: nonReentrant_def split: if_splits prod.splits sum.splits)

lemma fulfillSellOrder_keeps:
  assumes i: "i < length (sellOrders s)" and z: "amount (sellOrders s ! i) = 0"
    and run: "fulfillSellOrder sender v pay reentry j a s = (Inr u, s')"
  shows "i < length (sellOrders s') \<and> sellOrders s' ! i = sellOrders s ! i \<and> \<not> entered s'"
proof -
  let ?s0 = "s\<lparr>entered := True\<rparr>"
  from run obtain s3 where b: "fulfillSellOrder_body sender v pay reentry j a ?s0 = (Inr u, s3)"
    and s': "s' = s3\<lparr>entered := False\<rparr>"
    using nonReentrant_Inr [of "fulfillSellOrder_body sender v pay reentry j a" s u s']
    by (auto simp: fulfillSellOrder_def)
  from fulfillSellOrder_body_Inr [OF b] obtain s1 s2 where
    pos: "0 < a" and le: "a \<le> amount (sellOrders ?s0 ! j)"
    and r: "reduceOrder j a ?s0 = (Inr (), s1)"
    and t: "ledger_transfer (seller (sellOrders ?s0 ! j)) sender a s1 = (Inr (), s2)"
    and s3: "s3 = emit (SellOrderFulfilled j sender a v)
                    (callbacks (reentry 0 (seller (sellOrders ?s0 ! j)) v) s2)"
    by blast
  have "i \<noteq> j"
  proof
    assume "i = j"
    with le z have "a \<le> 0" by simp
    with pos show False by simp
  qed
  with reduceOrder_Inr(1) [OF r] reduceOrder_Inr(2) [OF r, of i] ledger_transfer_frame(1) [OF t] i
  have 2: "i < length (sellOrders s2) \<and> sellOrders s2 ! i = sellOrders s ! i" by simp
  then have "i < length (sellOrders s2)" by simp
  from callbacks_keeps [OF this, of "reentry 0 (seller (sellOrders ?s0 ! j)) v"] 2
  show ?thesis by (simp add: s' s3 emit_def)
qed

lemma fulfillBatchOrders_keeps:
  assumes i: "i < length (sellOrders s)" and z: "amount (sellOrders s ! i) = 0"
    and run: "fulfillBatchOrders sender v pay reentry is as ps s = (Inr u, s')"
  shows "i < length (sellOrders s') \<and> sellOrders s' ! i = sellOrders s ! i \<and> \<not> entered s'"
proof -
  let ?s0 = "s\<lparr>entered := True\<rparr>" and ?es = "zip is (zip as ps)"
  from run obtain s3 where b: "fulfillBatchOrders_body sender v pay reentry is as ps ?s0 = (Inr u, s3)"
    and s': "s' = s3\<lparr>entered := False\<rparr>"
    using nonReentrant_Inr [of "fulfillBatchOrders_body sender v pay reentry is as ps" s u s']
    by (auto simp: fulfillBatchOrders_def)
  from fulfillBatchOrders_body_Inr [OF b] obtain s1 s2 where
    p1: "firstPass ?s0 ?es 0 = Inr v"
    and p2: "secondPass ?es ?s0 = (Inr (), s1)"
    and p3: "thirdPass sender pay reentry 0 ?es s1 = (Inr (), s2)"
    and s3: "s3 = emit (BatchOrdersFulfilled sender is v) s2"
    by blast
  have "i \<notin> fst ` set ?es"
  proof
    assume "i \<in> fst ` set ?es"
    then obtain a p where "(i, a, p) \<in> set ?es" by force
    from firstPass_valid [OF p1 this] z show False by auto
  qed
  with secondPass_Inr [OF p2, of i] i
  have 2: "i < length (sellOrders s1) \<and> sellOrders s1 ! i = sellOrders s ! i" by simp
  then have "i < length (sellOrders s1)" by simp
  from thirdPass_frame [OF p3 this] 2 show ?thesis by (simp add: s' s3 emit_def)
qed

lemma dispatch_keeps:
  assumes i: "i < length (sellOrders s)" and z: "amount (sellOrders s ! i) = 0"
    and run: "dispatch c s = (Inr u, s')"
  shows "i < length (sellOrders s') \<and> sellOrders s' ! i = sellOrders s ! i"
proof (cases c)
  case (RegisterDevice sender device)
  with assms show ?thesis
    by (auto simp: registerDevice_def onlyOwner_def emit_def split: if_splits)
next
  case (DeregisterDevice sender device)
  with assms show ?thesis
    by (auto simp: deregisterDevice_def onlyOwner_def emit_def split: if_splits)
next
  case (ChangeEnergyToCreditRatio sender r)
  with assms show ?thesis
    by (auto simp: changeEnergyToCreditRatio_def onlyOwner_def split: if_splits)
next
  case (ChangeGovtWallet sender a)
  with assms show ?thesis
    by (auto simp: changeGovtWallet_def onlyOwner_def split: if_splits)
next
  case (ChangeFloorPricePerToken sender p)
  with assms show ?thesis
    by (auto simp: changeFloorPricePerToken_def onlyOwner_def split: if_splits)
next
  case (LogSmartMeterData sender p t e)
  with assms show ?thesis
    by (auto simp: logSmartMeterData_def emit_def dest!: forget_Inr split: if_splits)
next
  case (EarnCarbonCredit sender e t)
  with run obtain x where "earnCarbonCredit sender e t s = (Inr x, s')"
    by (auto dest!: forget_Inr)
  then obtain r s1 where
    m: "ledger_mint sender x (s\<lparr>smartMeterData := (smartMeterData s)(sender := (smartMeterData s sender)(t := r))\<rparr>) = (Inr (), s1)"
    and s': "s' = emit (CarbonCreditsMinted sender e x) s1"
    by (auto simp: earnCarbonCredit_def Let_def split: if_splits option.splits sum.splits prod.splits)
  from ledger_mint_frame(1) [OF m] i show ?thesis by (simp add: s' emit_def)
next
  case (PlaceSellOrder sender a p)
  with assms show ?thesis
    by (auto simp: placeSellOrder_cases emit_def nth_append dest!: forget_Inr split: if_splits)
next
  case (FulfillSellOrder sender v pay reentry j a)
  with run obtain x where "fulfillSellOrder sender v pay reentry j a s = (Inr x, s')"
    by (auto dest!: forget_Inr)
  from fulfillSellOrder_keeps [OF i z this] i show ?thesis by simp
next
  case (FulfillBatchOrders sender v pay reentry "is" as ps)
  with run have "fulfillBatchOrders sender v pay reentry is as ps s = (Inr u, s')" by simp
  from fulfillBatchOrders_keeps [OF i z this] i show ?thesis by simp
next
  case (OwnerBurnCredits sender a v r)
  with assms show ?thesis
    by (auto simp: OwnerburnCredits_def onlyOwner_def emit_def
             split: if_splits prod.splits sum.splits dest: ledger_burn_frame(1))
next
  case (UtilizeCredit sender v)
  with run have "nonReentrant (UtilizeCarbonCredit_body sender v) s = (Inr u, s')"
    by (simp add: UtilizeCarbonCredit_def)
  from nonReentrant_Inr [OF this] obtain s1 where
    b: "UtilizeCarbonCredit_body sender v (s\<lparr>entered := True\<rparr>) = (Inr u, s1)"
    and s': "s' = s1\<lparr>entered := False\<rparr>" by blast
  from b have "ledger_burn sender v (s\<lparr>entered := True\<rparr>) = (Inr u, s1)"
    by (auto simp: UtilizeCarbonCredit_body_def split: if_splits)
  from ledger_burn_frame(1) [OF this] i show ?thesis by (simp add: s')
next
  case (MintCCT sender a v)
  with assms show ?thesis
    by (auto simp: mintCCT_def onlyOwner_def emit_def
             split: if_splits prod.splits sum.splits dest: ledger_mint_frame(1))
next
  case (TransferCall sender d v)
  with assms show ?thesis by (auto dest!: forget_Inr dest: transfer_frame(1))
next
  case (ApproveCall sender sp v)
  with assms show ?thesis by (auto dest!: forget_Inr dest: approve_frame(1))
next
  case (TransferFromCall sender f d v)
  with assms show ?thesis by (auto dest!: forget_Inr dest: transferFrom_frame(1))
qed

lemma step_keeps:
  assumes i: "i < length (sellOrders s)" and z: "amount (sellOrders s ! i) = 0"
  shows "i < length (sellOrders (step c s)) \<and> sellOrders (step c s) ! i = sellOrders s ! i"
proof (cases "dispatch c s")
  case (Pair r s1)
  show ?thesis
  proof (cases r)
    case (Inl e)
    with Pair i show ?thesis by (simp add: step_def transact_def)
  next
    case (Inr u)
    with Pair dispatch_keeps [OF i z, of c u s1] show ?thesis
      by (simp add: step_def transact_def)
  qed
qed

lemma run_keeps:
  "i < length (sellOrders s) \<Longrightarrow> amount (sellOrders s ! i) = 0 \<Longrightarrow>
   i < length (sellOrders (run s cs)) \<and> sellOrders (run s cs) ! i = sellOrders s ! i"
proof (induction cs arbitrary: s)
  case Nil
  then show ?case by simp
next
  case (Cons c cs)
  from step_keeps [OF Cons.prems, of c]
  have 1: "i < length (sellOrders (step c s))" and 2: "sellOrders (step c s) ! i = sellOrders s ! i"
    by simp_all
  from 2 Cons.prems(2) have 3: "amount (sellOrders (step c s) ! i) = 0" by simp
  from Cons.IH [OF 1 3] 2 show ?case by simp
qed

lemma fulfillSellOrder_unfillable:
  assumes i: "i < length (sellOrders s)" and z: "amount (sellOrders s ! i) = 0"
    and "open": "\<not> fulfilled (sellOrders s ! i)"
  shows "transact (fulfillSellOrder buyer v pay reentry i b) s =
           (Inl (if entered s then ReentrantCall else InvalidAmount), s)"
proof -
  have "0 < b \<longrightarrow> \<not> b \<le> 0" by auto
  then show ?thesis
    using assms
    by (auto simp: transact_def fulfillSellOrder_def nonReentrant_def fulfillSellOrder_body_def Let_def)
qed

subsection \<open>Orders of amount zero\<close>

text \<open>
  Claim C9. \<^verbatim>\<open>placeSellOrder\<close> does not ask for a positive amount: with the amount 0
  and a price at or above the floor price it succeeds and appends an order of remaining
  amount 0 with \<open>fulfilled = False\<close>. After every later run of calls that order is still
  in the array, unchanged and open, and every \<^verbatim>\<open>fulfillSellOrder\<close> call on it fails (with
  \<open>InvalidAmount\<close>, no amount \<open>b\<close> satisfying \<open>0 < b \<and> b \<le> 0\<close>).
\<close>

theorem zero_amount_order_unfillable:
  assumes floor: "FloorPricePerToken s \<le> p"
  shows "\<exists>s'. transact (placeSellOrder sender 0 p) s = (Inr (length (sellOrders s)), s')
     \<and> sellOrders s' = sellOrders s @
           [\<lparr>seller = sender, amount = 0, pricePerToken = p, fulfilled = False\<rparr>]
     \<and> (\<forall>cs. length (sellOrders s) < length (sellOrders (run s' cs))
            \<and> sellOrders (run s' cs) ! length (sellOrders s) =
                \<lparr>seller = sender, amount = 0, pricePerToken = p, fulfilled = False\<rparr>)
     \<and> (\<forall>cs buyer v pay reentry b.
            transact (fulfillSellOrder buyer v pay reentry (length (sellOrders s)) b) (run s' cs) =
              (Inl (if entered (run s' cs) then ReentrantCall else InvalidAmount), run s' cs))"
proof -
  let ?i = "length (sellOrders s)"
  let ?o = "\<lparr>seller = sender, amount = 0, pricePerToken = p, fulfilled = False\<rparr>"
  let ?s' = "emit (SellOrderPlaced ?i sender 0 p) (s\<lparr>sellOrders := sellOrders s @ [?o]\<rparr>)"
  have run: "transact (placeSellOrder sender 0 p) s = (Inr ?i, ?s')"
    using floor by (simp add: transact_def placeSellOrder_cases not_less)
  have so: "sellOrders ?s' = sellOrders s @ [?o]" by (simp add: emit_def)
  have i: "?i < length (sellOrders ?s')" and z: "amount (sellOrders ?s' ! ?i) = 0"
    and v: "sellOrders ?s' ! ?i = ?o"
    by (simp_all add: so)
  have keep: "?i < length (sellOrders (run ?s' cs)) \<and> sellOrders (run ?s' cs) ! ?i = ?o" for cs
    using run_keeps [OF i z, of cs] v by simp
  have fail: "transact (fulfillSellOrder buyer v pay reentry ?i b) (run ?s' cs) =
              (Inl (if entered (run ?s' cs) then ReentrantCall else InvalidAmount), run ?s' cs)"
    for cs buyer v pay reentry b
    by (rule fulfillSellOrder_unfillable) (simp_all add: keep)
  from run so keep fail show ?thesis by blast
qed

theorem zero_amount_order_unfillable_witness:
  "FloorPricePerToken (constructor 1 2) \<le> 10000000
   \<and> (\<exists>s'. transact (placeSellOrder 5 0 10000000) (constructor 1 2) = (Inr 0, s')
        \<and> sellOrders s' = [\<lparr>seller = 5, amount = 0, pricePerToken = 10000000, fulfilled = False\<rparr>]
        \<and> fst (transact (fulfillSellOrder 6 0 (\<lambda>_ _ _. True) (\<lambda>_ _ _. []) 0 1) s') = Inl InvalidAmount)"
proof -
  have h: "FloorPricePerToken (constructor 1 2) \<le> 10000000" by (simp add: constructor_def)
  have e: "sellOrders (constructor 1 2) = []" by (simp add: constructor_def)
  from zero_amount_order_unfillable [OF h, of 5] obtain s' where
    1: "transact (placeSellOrder 5 0 10000000) (constructor 1 2) = (Inr 0, s')"
    and 2: "sellOrders s' = [\<lparr>seller = 5, amount = 0, pricePerToken = 10000000, fulfilled = False\<rparr>]"
    and 3: "\<forall>cs buyer v pay reentry b.
            transact (fulfillSellOrder buyer v pay reentry 0 b) (run s' cs) =
              (Inl (if entered (run s' cs) then ReentrantCall else InvalidAmount), run s' cs)"
    by (auto simp: e)
  have ne: "\<not> entered s'"
    using 1 by (auto simp: transact_def placeSellOrder_cases emit_def constructor_def split: if_splits)
  from 3 have "transact (fulfillSellOrder 6 0 (\<lambda>_ _ _. True) (\<lambda>_ _ _. []) 0 1) (run s' []) =
              (Inl (if entered (run s' []) then ReentrantCall else InvalidAmount), run s' [])"
    by blast
  with ne have "fst (transact (fulfillSellOrder 6 0 (\<lambda>_ _ _. True) (\<lambda>_ _ _. []) 0 1) s') = Inl InvalidAmount"
    by simp
  with h 1 2 show ?thesis by blast
qed

subsection \<open>Fulfilling a single order\<close>

lemmas run_defs = eval_defs mintCCT_def approve_def transfer_def placeSellOrder_cases

lemma market_state_orders:
  "sellOrders market_state =
     [\<lparr>seller = 5, amount = 1000, pricePerToken = 2000000000000000000, fulfilled = False\<rparr>,
      \<lparr>seller = 5, amount = 10, pricePerToken = 10000000, fulfilled = False\<rparr>]"
  by (simp add: market_state_def run_defs)

lemma market_state_entered: "\<not> entered market_state"
  by (simp add: market_state_def run_defs)

lemma market_state_balance: "balances market_state = (\<lambda>_. 0)(5 := 1000)"
  by (simp add: market_state_def run_defs)

lemma overflow_state_orders:
  "sellOrders overflow_state =
     [\<lparr>seller = 5,
       amount = 57896044618658097711785492504343953926634992332820282019728792003956564819968,
       pricePerToken = 10000000, fulfilled = False\<rparr>]"
  by (simp add: overflow_state_def run_defs)

lemma overflow_state_entered: "\<not> entered overflow_state"
  by (simp add: overflow_state_def run_defs)

lemma underfunded_state_orders: "sellOrders underfunded_state = sellOrders market_state"
  by (simp add: underfunded_state_def market_state_def run_defs)

lemma underfunded_state_entered: "\<not> entered underfunded_state"
  by (simp add: underfunded_state_def market_state_def run_defs)

lemma underfunded_state_balance: "balances underfunded_state 5 = 0"
  by (simp add: underfunded_state_def market_state_def run_defs)

lemma unat_SCALE: "unat SCALE = 1000000000000000000"
  by (simp add: SCALE_def)

lemma price_exact:
  assumes "unat a * unat p < 2 ^ 256"
  shows "unat (a * p div SCALE) = unat a * unat p div 1000000000000000000"
proof -
  from assms have "unat (a * p) = unat a * unat p"
    using unat_mult_lem [of a p] by simp
  then show ?thesis by (simp add: unat_div unat_SCALE)
qed

lemma fulfillSellOrder_body_checks:
  assumes "i < length (sellOrders s)" and "\<not> fulfilled (sellOrders s ! i)"
    and "0 < a" and "a \<le> amount (sellOrders s ! i)"
  shows "fulfillSellOrder_body sender v pay reentry i a s =
     (if \<not> unat a * unat (pricePerToken (sellOrders s ! i)) < 2 ^ 256 then (Inl Panic, s)
      else if v \<noteq> a * pricePerToken (sellOrders s ! i) div SCALE then (Inl IncorrectPayment, s)
      else if balanceOf s (seller (sellOrders s ! i)) < a then (Inl SellerUnderfunded, s)
      else
        (case reduceOrder i a s of
           (Inl e, s1) \<Rightarrow> (Inl e, s1)
         | (Inr _, s1) \<Rightarrow>
             (case ledger_transfer (seller (sellOrders s ! i)) sender a s1 of
                (Inl e, s2) \<Rightarrow> (Inl e, s2)
              | (Inr _, s2) \<Rightarrow>
                  if \<not> pay 0 (seller (sellOrders s ! i)) v then (Inl PaymentForwardingFailed, s2)
                  else (Inr True,
                        emit (SellOrderFulfilled i sender a v)
                          (callbacks (reentry 0 (seller (sellOrders s ! i)) v) s2)))))"
  using assms by (simp add: fulfillSellOrder_body_def Let_def checked_mul_def not_le)

lemma bal2_le_sum:
  assumes "x \<noteq> y"
  shows "unat (balances s x) + unat (balances s y) \<le> sum_balances s"
proof -
  have "(\<Sum>a\<in>{x, y}. unat (balances s a)) \<le> (\<Sum>a\<in>UNIV. unat (balances s a))"
    by (rule sum_mono2) simp_all
  with assms show ?thesis by (simp add: sum_balances_def)
qed

lemma reduceOrder_ok:
  "i < length (sellOrders s) \<Longrightarrow> a \<le> amount (sellOrders s ! i) \<Longrightarrow>
   reduceOrder i a s =
     (Inr (),
      s\<lparr>sellOrders := (sellOrders s)[i :=
           (sellOrders s ! i)\<lparr>amount := amount (sellOrders s ! i) - a,
              fulfilled := (if amount (sellOrders s ! i) - a = 0 then True
                            else fulfilled (sellOrders s ! i))\<rparr>]\<rparr>)"
  by (simp add: reduceOrder_def Let_def checked_sub_def)

lemma fulfillSellOrder_ok:
  assumes free: "\<not> entered s" and i: "i < length (sellOrders s)"
    and "open": "\<not> fulfilled (sellOrders s ! i)"
    and pos: "0 < a" and le: "a \<le> amount (sellOrders s ! i)"
    and nov: "unat a * unat (pricePerToken (sellOrders s ! i)) < 2 ^ 256"
    and v: "v = a * pricePerToken (sellOrders s ! i) div SCALE"
    and funded: "a \<le> balanceOf s (seller (sellOrders s ! i))"
    and paid: "pay 0 (seller (sellOrders s ! i)) v"
    and sel: "seller (sellOrders s ! i) \<noteq> 0" and buy: "buyer \<noteq> 0"
  shows "fulfillSellOrder buyer v pay reentry i a s =
           (Inr True, settled buyer v (reentry 0 (seller (sellOrders s ! i)) v) i a s)"
proof -
  let ?s0 = "s\<lparr>entered := True\<rparr>"
  have pre: "i < length (sellOrders ?s0)" "\<not> fulfilled (sellOrders ?s0 ! i)"
    "a \<le> amount (sellOrders ?s0 ! i)"
    using i "open" le by simp_all
  note b = fulfillSellOrder_body_checks [OF pre(1) pre(2) pos pre(3)]
  from funded have f: "a \<le> balances s (seller (sellOrders s ! i))" by (simp add: balanceOf_def)
  then have nf: "\<not> balances s (seller (sellOrders s ! i)) < a" by (simp add: not_less)
  show ?thesis
    using free i le nov v nf f paid sel buy
    by (simp add: fulfillSellOrder_def nonReentrant_def b balanceOf_def reduceOrder_ok
                  ledger_transfer_ok emit_def settled_def moved_def)
qed

text \<open>
  Claim C3, as amended. For an open order and a valid amount \<open>a\<close>
  (\<open>0 < a \<le> remaining\<close>): a call of \<^verbatim>\<open>fulfillSellOrder\<close> that arrives while a guarded
  call is in progress fails \<open>ReentrantCall\<close>. The call succeeds only when no guarded call
  is in progress, the product \<open>a * pricePerToken\<close> fits in 256 bits and the payment sent
  equals \<open>a * pricePerToken div 10 ^ 18\<close> exactly. While no guarded call is in progress:
  when the product fits, every other payment, one unit above or below included, fails
  \<open>IncorrectPayment\<close>; when the product does not fit, the call fails with the arithmetic
  panic whatever the payment. In these two failures nothing but the guard's flag has been
  written when the call fails, and in all three the call leaves the state as it was.
\<close>

theorem fulfillSellOrder_payment_amended:
  assumes i: "i < length (sellOrders s)"
    and "open": "\<not> fulfilled (sellOrders s ! i)"
    and pos: "0 < a" and le: "a \<le> amount (sellOrders s ! i)"
  shows "(entered s \<longrightarrow>
            transact (fulfillSellOrder buyer v pay reentry i a) s = (Inl ReentrantCall, s)
            \<and> fulfillSellOrder buyer v pay reentry i a s = (Inl ReentrantCall, s))
       \<and> (fst (transact (fulfillSellOrder buyer v pay reentry i a) s) = Inr True \<longrightarrow>
            \<not> entered s
            \<and> unat a * unat (pricePerToken (sellOrders s ! i)) < 2 ^ 256
            \<and> unat v = unat a * unat (pricePerToken (sellOrders s ! i)) div 1000000000000000000)
       \<and> (\<not> entered s \<and> unat a * unat (pricePerToken (sellOrders s ! i)) < 2 ^ 256
            \<and> unat v \<noteq> unat a * unat (pricePerToken (sellOrders s ! i)) div 1000000000000000000 \<longrightarrow>
            transact (fulfillSellOrder buyer v pay reentry i a) s = (Inl IncorrectPayment, s)
            \<and> fulfillSellOrder buyer v pay reentry i a s = (Inl IncorrectPayment, s\<lparr>entered := True\<rparr>))
       \<and> (\<not> entered s \<and> \<not> unat a * unat (pricePerToken (sellOrders s ! i)) < 2 ^ 256 \<longrightarrow>
            transact (fulfillSellOrder buyer v pay reentry i a) s = (Inl Panic, s)
            \<and> fulfillSellOrder buyer v pay reentry i a s = (Inl Panic, s\<lparr>entered := True\<rparr>))"
proof -
  let ?s0 = "s\<lparr>entered := True\<rparr>" and ?p = "pricePerToken (sellOrders s ! i)"
  have pre: "i < length (sellOrders ?s0)" "\<not> fulfilled (sellOrders ?s0 ! i)"
    "a \<le> amount (sellOrders ?s0 ! i)"
    using i "open" le by simp_all
  note b = fulfillSellOrder_body_checks [OF pre(1) pre(2) pos pre(3)]
  have closed: "fulfillSellOrder buyer v pay reentry i a s = (Inl ReentrantCall, s)"
    if "entered s"
    using that by (simp add: fulfillSellOrder_def nonReentrant_def)
  have panic: "fulfillSellOrder buyer v pay reentry i a s = (Inl Panic, ?s0)"
    if "\<not> entered s" and "\<not> unat a * unat ?p < 2 ^ 256"
    using that by (simp add: fulfillSellOrder_def nonReentrant_def b)
  have wrong: "fulfillSellOrder buyer v pay reentry i a s = (Inl IncorrectPayment, ?s0)"
    if free: "\<not> entered s" and ok: "unat a * unat ?p < 2 ^ 256"
      and ne: "unat v \<noteq> unat a * unat ?p div 1000000000000000000"
  proof -
    from ne price_exact [OF ok] have "v \<noteq> a * ?p div SCALE" by metis
    with ok free show ?thesis by (simp add: fulfillSellOrder_def nonReentrant_def b)
  qed
  show ?thesis
  proof (intro conjI impI)
    assume e: "entered s"
    from closed [OF e]
    show "transact (fulfillSellOrder buyer v pay reentry i a) s = (Inl ReentrantCall, s)"
      by (rule transact_Inl)
    from closed [OF e]
    show "fulfillSellOrder buyer v pay reentry i a s = (Inl ReentrantCall, s)" .
  next
    assume succ: "fst (transact (fulfillSellOrder buyer v pay reentry i a) s) = Inr True"
    show free: "\<not> entered s"
    proof
      assume "entered s"
      from closed [OF this] succ show False by (simp add: transact_def)
    qed
    show ok: "unat a * unat ?p < 2 ^ 256"
    proof (rule ccontr)
      assume "\<not> unat a * unat ?p < 2 ^ 256"
      from panic [OF free this] succ show False by (simp add: transact_def)
    qed
    show "unat v = unat a * unat ?p div 1000000000000000000"
    proof (rule ccontr)
      assume "unat v \<noteq> unat a * unat ?p div 1000000000000000000"
      from wrong [OF free ok this] succ show False by (simp add: transact_def)
    qed
  next
    assume h: "\<not> entered s \<and> unat a * unat ?p < 2 ^ 256
            \<and> unat v \<noteq> unat a * unat ?p div 1000000000000000000"
    then have w: "fulfillSellOrder buyer v pay reentry i a s = (Inl IncorrectPayment, ?s0)"
      using wrong by blast
    then show "transact (fulfillSellOrder buyer v pay reentry i a) s = (Inl IncorrectPayment, s)"
      by (rule transact_Inl)
    from w show "fulfillSellOrder buyer v pay reentry i a s = (Inl IncorrectPayment, ?s0)" .
  next
    assume h: "\<not> entered s \<and> \<not> unat a * unat ?p < 2 ^ 256"
    then have w: "fulfillSellOrder buyer v pay reentry i a s = (Inl Panic, ?s0)"
      using panic by blast
    then show "transact (fulfillSellOrder buyer v pay reentry i a) s = (Inl Panic, s)"
      by (rule transact_Inl)
    from w show "fulfillSellOrder buyer v pay reentry i a s = (Inl Panic, ?s0)" .
  qed
qed

theorem fulfillSellOrder_payment_amended_witness:
  "\<not> entered market_state \<and> 0 < length (sellOrders market_state)
   \<and> \<not> fulfilled (sellOrders market_state ! 0)
   \<and> (0 :: uint256) < 1000 \<and> (1000 :: uint256) \<le> amount (sellOrders market_state ! 0)
   \<and> unat (1000 :: uint256) * unat (pricePerToken (sellOrders market_state ! 0)) < 2 ^ 256
   \<and> unat (2001 :: uint256)
        \<noteq> unat (1000 :: uint256) * unat (pricePerToken (sellOrders market_state ! 0))
            div 1000000000000000000
   \<and> transact (fulfillSellOrder 6 2001 (\<lambda>_ _ _. True) (\<lambda>_ _ _. []) 0 1000) market_state
        = (Inl IncorrectPayment, market_state)
   \<and> transact (fulfillSellOrder 6 1999 (\<lambda>_ _ _. True) (\<lambda>_ _ _. []) 0 1000) market_state
        = (Inl IncorrectPayment, market_state)"
proof -
  have h1: "\<not> entered market_state" by (rule market_state_entered)
  have h2: "0 < length (sellOrders market_state)" by (simp add: market_state_orders)
  have h3: "\<not> fulfilled (sellOrders market_state ! 0)" by (simp add: market_state_orders)
  have h4: "(0 :: uint256) < 1000" by simp
  have h5: "(1000 :: uint256) \<le> amount (sellOrders market_state ! 0)"
    by (simp add: market_state_orders)
  have h6: "unat (1000 :: uint256) * unat (pricePerToken (sellOrders market_state ! 0)) < 2 ^ 256"
    by (simp add: market_state_orders)
  have h7: "unat (2001 :: uint256)
        \<noteq> unat (1000 :: uint256) * unat (pricePerToken (sellOrders market_state ! 0))
            div 1000000000000000000"
    by (simp add: market_state_orders)
  have h8: "unat (1999 :: uint256)
        \<noteq> unat (1000 :: uint256) * unat (pricePerToken (sellOrders market_state ! 0))
            div 1000000000000000000"
    by (simp add: market_state_orders)
  from fulfillSellOrder_payment_amended [OF h2 h3 h4 h5, of 6 2001 "\<lambda>_ _ _. True"
      "\<lambda>_ _ _. []"] h1 h6 h7
  have a: "transact (fulfillSellOrder 6 2001 (\<lambda>_ _ _. True) (\<lambda>_ _ _. []) 0 1000) market_state
        = (Inl IncorrectPayment, market_state)" by blast
  from fulfillSellOrder_payment_amended [OF h2 h3 h4 h5, of 6 1999 "\<lambda>_ _ _. True"
      "\<lambda>_ _ _. []"] h1 h6 h8
  have b: "transact (fulfillSellOrder 6 1999 (\<lambda>_ _ _. True) (\<lambda>_ _ _. []) 0 1000) market_state
        = (Inl IncorrectPayment, market_state)" by blast
  from h1 h2 h3 h4 h5 h6 h7 a b show ?thesis by blast
qed

text \<open>
  Claim C3, as stated, fails: order 0 of \<open>overflow_state\<close> is open, the amount
  \<open>2 ^ 255\<close> is valid for it, the payment sent is one unit above
  \<open>2 ^ 255 * 10 ^ 7 div 10 ^ 18\<close>, and the call fails with the arithmetic panic of the
  multiplication, not with \<open>IncorrectPayment\<close>.
\<close>

theorem fulfillSellOrder_overflow_counterexample:
  "\<not> entered overflow_state \<and> 0 < length (sellOrders overflow_state)
   \<and> \<not> fulfilled (sellOrders overflow_state ! 0)
   \<and> amount (sellOrders overflow_state ! 0)
        = 57896044618658097711785492504343953926634992332820282019728792003956564819968
   \<and> pricePerToken (sellOrders overflow_state ! 0) = 10000000
   \<and> (578960446186580977117854925043439539266349923328202820197287920040 :: nat)
        = 57896044618658097711785492504343953926634992332820282019728792003956564819968
            * 10000000 div 1000000000000000000 + 1
   \<and> transact (fulfillSellOrder 6 578960446186580977117854925043439539266349923328202820197287920040
         (\<lambda>_ _ _. True) (\<lambda>_ _ _. []) 0
         57896044618658097711785492504343953926634992332820282019728792003956564819968)
        overflow_state
       = (Inl Panic, overflow_state)"
proof -
  have t: "transact (fulfillSellOrder 6 578960446186580977117854925043439539266349923328202820197287920040
         (\<lambda>_ _ _. True) (\<lambda>_ _ _. []) 0
         57896044618658097711785492504343953926634992332820282019728792003956564819968)
        overflow_state
       = (Inl Panic, overflow_state)"
    by (rule transact_Inl [where ?s1.0 = "overflow_state\<lparr>entered := True\<rparr>"])
       (simp add: fulfillSellOrder_def nonReentrant_def overflow_state_entered
          fulfillSellOrder_body_def overflow_state_orders checked_mul_def)
  show ?thesis using t by (simp add: overflow_state_entered overflow_state_orders)
qed

text \<open>
  Claim C10, as amended. For an open order and a valid amount \<open>a\<close> with
  \<open>a * pricePerToken < 10 ^ 18\<close> the computed total price is zero. If moreover no guarded
  call is in progress, neither party is the zero address, the ledger is conserved, the
  seller's current balance is at least \<open>a\<close> and the seller accepts the forwarded payment
  of zero, \<^verbatim>\<open>fulfillSellOrder\<close> with zero payment succeeds. At the moment the payment is
  forwarded, \<open>a\<close> credits have moved from the seller to the buyer, no other balance has
  changed and the order's remaining amount has dropped by \<open>a\<close>; the call ends in the
  state that the calls the seller makes back into the contract while it is paid produce
  from there. When the seller makes no such call, these are the balances and the order
  after the call.
\<close>

theorem fulfillSellOrder_truncated_price_amended:
  assumes free: "\<not> entered s" and i: "i < length (sellOrders s)"
    and "open": "\<not> fulfilled (sellOrders s ! i)"
    and pos: "0 < a" and le: "a \<le> amount (sellOrders s ! i)"
    and small: "unat a * unat (pricePerToken (sellOrders s ! i)) < 1000000000000000000"
    and funded: "a \<le> balanceOf s (seller (sellOrders s ! i))"
    and paid: "pay 0 (seller (sellOrders s ! i)) 0"
    and sel: "seller (sellOrders s ! i) \<noteq> 0" and buy: "buyer \<noteq> 0"
    and cons: "conserved s"
  shows "a * pricePerToken (sellOrders s ! i) div SCALE = 0
    \<and> transact (fulfillSellOrder buyer 0 pay reentry i a) s
        = (Inr True, settled buyer 0 (reentry 0 (seller (sellOrders s ! i)) 0) i a s)
    \<and> (\<exists>m. m = moved buyer i a (s\<lparr>entered := True\<rparr>)
          \<and> (buyer \<noteq> seller (sellOrders s ! i) \<longrightarrow>
                unat (balanceOf m (seller (sellOrders s ! i))) + unat a
                  = unat (balanceOf s (seller (sellOrders s ! i)))
                \<and> unat (balanceOf m buyer) = unat (balanceOf s buyer) + unat a)
          \<and> (buyer = seller (sellOrders s ! i) \<longrightarrow> balanceOf m buyer = balanceOf s buyer)
          \<and> (\<forall>x. x \<noteq> buyer \<and> x \<noteq> seller (sellOrders s ! i) \<longrightarrow> balanceOf m x = balanceOf s x)
          \<and> totalSupply m = totalSupply s
          \<and> amount (sellOrders m ! i) = amount (sellOrders s ! i) - a)
    \<and> (reentry 0 (seller (sellOrders s ! i)) 0 = [] \<longrightarrow>
        (\<exists>s'. transact (fulfillSellOrder buyer 0 pay reentry i a) s = (Inr True, s')
          \<and> (buyer \<noteq> seller (sellOrders s ! i) \<longrightarrow>
                unat (balanceOf s' (seller (sellOrders s ! i))) + unat a
                  = unat (balanceOf s (seller (sellOrders s ! i)))
                \<and> unat (balanceOf s' buyer) = unat (balanceOf s buyer) + unat a)
          \<and> (buyer = seller (sellOrders s ! i) \<longrightarrow> balanceOf s' buyer = balanceOf s buyer)
          \<and> (\<forall>x. x \<noteq> buyer \<and> x \<noteq> seller (sellOrders s ! i) \<longrightarrow> balanceOf s' x = balanceOf s x)
          \<and> totalSupply s' = totalSupply s
          \<and> amount (sellOrders s' ! i) = amount (sellOrders s ! i) - a))"
proof -
  let ?sel = "seller (sellOrders s ! i)" and ?p = "pricePerToken (sellOrders s ! i)"
  from small have nov: "unat a * unat ?p < 2 ^ 256" by simp
  from price_exact [OF nov] small have "unat (a * ?p div SCALE) = 0" by simp
  then have zero: "a * ?p div SCALE = 0" by (simp add: unat_eq_0)
  from paid zero have paid': "pay 0 ?sel (a * ?p div SCALE)" by simp
  let ?s' = "settled buyer 0 (reentry 0 ?sel 0) i a s"
  have run: "fulfillSellOrder buyer 0 pay reentry i a s = (Inr True, ?s')"
    using fulfillSellOrder_ok [where pay = pay and reentry = reentry and buyer = buyer
        and v = "a * ?p div SCALE", OF free i "open" pos le nov refl funded paid' sel buy]
    by (simp add: zero)
  then have tr: "transact (fulfillSellOrder buyer 0 pay reentry i a) s = (Inr True, ?s')"
    by (rule transact_Inr)
  let ?m = "moved buyer i a (s\<lparr>entered := True\<rparr>)"
  from funded have f: "a \<le> balances s ?sel" by (simp add: balanceOf_def)
  then have uf: "unat a \<le> unat (balances s ?sel)" by (simp add: word_le_nat_alt)
  have sub: "unat (balances s ?sel - a) = unat (balances s ?sel) - unat a"
    by (rule unat_sub_le [OF f])
  have diff: "unat (balanceOf ?m ?sel) + unat a = unat (balanceOf s ?sel)
              \<and> unat (balanceOf ?m buyer) = unat (balanceOf s buyer) + unat a"
    if ne: "buyer \<noteq> ?sel"
  proof -
    have "unat (balances s buyer) + unat (balances s ?sel) \<le> sum_balances s"
      by (rule bal2_le_sum [OF ne])
    moreover have "sum_balances s < 2 ^ 256"
      using cons unat_lt [of "totalSupply s"] by (simp add: conserved_def)
    ultimately have "unat (balances s buyer) + unat a < 2 ^ 256" using uf by simp
    then have "unat (balances s buyer + a) = unat (balances s buyer) + unat a"
      by (simp add: unat_add_lem [THEN iffD1])
    with ne uf sub show ?thesis by (simp add: moved_def balanceOf_def)
  qed
  have same: "balanceOf ?m buyer = balanceOf s buyer" if "buyer = ?sel"
    using that by (simp add: moved_def balanceOf_def)
  have others: "\<forall>x. x \<noteq> buyer \<and> x \<noteq> ?sel \<longrightarrow> balanceOf ?m x = balanceOf s x"
    by (simp add: moved_def balanceOf_def)
  have ts: "totalSupply ?m = totalSupply s" by (simp add: moved_def)
  have am: "amount (sellOrders ?m ! i) = amount (sellOrders s ! i) - a"
    using i by (simp add: moved_def)
  have unchanged: "balanceOf ?s' x = balanceOf ?m x" "totalSupply ?s' = totalSupply ?m"
    "sellOrders ?s' = sellOrders ?m"
    if "reentry 0 ?sel 0 = []" for x
    using that by (simp_all add: settled_def emit_def balanceOf_def)
  have at_payment: "\<exists>m. m = ?m
          \<and> (buyer \<noteq> ?sel \<longrightarrow>
                unat (balanceOf m ?sel) + unat a = unat (balanceOf s ?sel)
                \<and> unat (balanceOf m buyer) = unat (balanceOf s buyer) + unat a)
          \<and> (buyer = ?sel \<longrightarrow> balanceOf m buyer = balanceOf s buyer)
          \<and> (\<forall>x. x \<noteq> buyer \<and> x \<noteq> ?sel \<longrightarrow> balanceOf m x = balanceOf s x)
          \<and> totalSupply m = totalSupply s
          \<and> amount (sellOrders m ! i) = amount (sellOrders s ! i) - a"
    using diff same others ts am by blast
  have at_end: "\<exists>s'. transact (fulfillSellOrder buyer 0 pay reentry i a) s = (Inr True, s')
          \<and> (buyer \<noteq> ?sel \<longrightarrow>
                unat (balanceOf s' ?sel) + unat a = unat (balanceOf s ?sel)
                \<and> unat (balanceOf s' buyer) = unat (balanceOf s buyer) + unat a)
          \<and> (buyer = ?sel \<longrightarrow> balanceOf s' buyer = balanceOf s buyer)
          \<and> (\<forall>x. x \<noteq> buyer \<and> x \<noteq> ?sel \<longrightarrow> balanceOf s' x = balanceOf s x)
          \<and> totalSupply s' = totalSupply s
          \<and> amount (sellOrders s' ! i) = amount (sellOrders s ! i) - a"
    if none: "reentry 0 ?sel 0 = []"
  proof (intro exI conjI)
    show "transact (fulfillSellOrder buyer 0 pay reentry i a) s = (Inr True, ?s')" by (rule tr)
    show "buyer \<noteq> ?sel \<longrightarrow>
                unat (balanceOf ?s' ?sel) + unat a = unat (balanceOf s ?sel)
                \<and> unat (balanceOf ?s' buyer) = unat (balanceOf s buyer) + unat a"
      using diff by (simp add: unchanged [OF none])
    show "buyer = ?sel \<longrightarrow> balanceOf ?s' buyer = balanceOf s buyer"
    proof
      assume "buyer = ?sel"
      from same [OF this] show "balanceOf ?s' buyer = balanceOf s buyer"
        by (simp only: unchanged(1) [OF none])
    qed
    show "\<forall>x. x \<noteq> buyer \<and> x \<noteq> ?sel \<longrightarrow> balanceOf ?s' x = balanceOf s x"
      using others by (simp add: unchanged [OF none])
    show "totalSupply ?s' = totalSupply s" using ts by (simp add: unchanged [OF none])
    show "amount (sellOrders ?s' ! i) = amount (sellOrders s ! i) - a"
      using am by (simp add: unchanged [OF none])
  qed
  from zero tr at_payment at_end show ?thesis by blast
qed

theorem fulfillSellOrder_truncated_price_amended_witness:
  "\<not> entered market_state \<and> 1 < length (sellOrders market_state)
   \<and> \<not> fulfilled (sellOrders market_state ! 1)
   \<and> (0 :: uint256) < 3 \<and> (3 :: uint256) \<le> amount (sellOrders market_state ! 1)
   \<and> unat (3 :: uint256) * unat (pricePerToken (sellOrders market_state ! 1))
        < 1000000000000000000
   \<and> (3 :: uint256) \<le> balanceOf market_state (seller (sellOrders market_state ! 1))
   \<and> seller (sellOrders market_state ! 1) \<noteq> 0 \<and> (6 :: address) \<noteq> 0
   \<and> conserved market_state
   \<and> (\<exists>s'. transact (fulfillSellOrder 6 0 (\<lambda>_ _ _. True) (\<lambda>_ _ _. []) 1 3) market_state
               = (Inr True, s')
          \<and> unat (balanceOf s' 5) = 997 \<and> unat (balanceOf s' 6) = 3
          \<and> amount (sellOrders s' ! 1) = 7)
   \<and> transact (fulfillSellOrder 6 0 (\<lambda>_ _ _. True) (\<lambda>_ _ _. [CbTransfer 5 8 5]) 1 3) market_state
       = (Inr True, settled 6 0 [CbTransfer 5 8 5] 1 3 market_state)
   \<and> unat (balanceOf (moved 6 1 3 (market_state\<lparr>entered := True\<rparr>)) 5) = 997
   \<and> unat (balanceOf (moved 6 1 3 (market_state\<lparr>entered := True\<rparr>)) 6) = 3
   \<and> unat (balanceOf (settled 6 0 [CbTransfer 5 8 5] 1 3 market_state) 5) = 992
   \<and> unat (balanceOf (settled 6 0 [CbTransfer 5 8 5] 1 3 market_state) 8) = 5
   \<and> unat (balanceOf (settled 6 0 [CbTransfer 5 8 5] 1 3 market_state) 6) = 3"
proof -
  have h1: "\<not> entered market_state" by (rule market_state_entered)
  have h2: "1 < length (sellOrders market_state)" by (simp add: market_state_orders)
  have h3: "\<not> fulfilled (sellOrders market_state ! 1)" by (simp add: market_state_orders)
  have h4: "(0 :: uint256) < 3" by simp
  have h5: "(3 :: uint256) \<le> amount (sellOrders market_state ! 1)"
    by (simp add: market_state_orders)
  have h6: "unat (3 :: uint256) * unat (pricePerToken (sellOrders market_state ! 1))
        < 1000000000000000000"
    by (simp add: market_state_orders)
  have h7: "(3 :: uint256) \<le> balanceOf market_state (seller (sellOrders market_state ! 1))"
    by (simp add: market_state_orders market_state_balance balanceOf_def)
  have h9: "seller (sellOrders market_state ! 1) \<noteq> 0" by (simp add: market_state_orders)
  have h10: "(6 :: address) \<noteq> 0" by simp
  have h11: "conserved market_state"
    unfolding market_state_def by (rule run_conserved) (rule constructor_conserved)
  have b5: "unat (balanceOf market_state 5) = 1000" and b6: "unat (balanceOf market_state 6) = 0"
    by (simp_all add: market_state_balance balanceOf_def)
  have sel: "seller (sellOrders market_state ! Suc 0) = 5"
    and am: "amount (sellOrders market_state ! Suc 0) = 10"
    by (simp_all add: market_state_orders)
  from fulfillSellOrder_truncated_price_amended [where s = market_state and i = 1 and a = 3
      and pay = "\<lambda>_ _ _. True" and reentry = "\<lambda>_ _ _. []" and buyer = 6,
      OF h1 h2 h3 h4 h5 h6 h7 TrueI h9 h10 h11]
  obtain s' where "transact (fulfillSellOrder 6 0 (\<lambda>_ _ _. True) (\<lambda>_ _ _. []) 1 3) market_state = (Inr True, s')"
    and "unat (balanceOf s' 5) + unat (3 :: uint256) = unat (balanceOf market_state 5)"
    and "unat (balanceOf s' 6) = unat (balanceOf market_state 6) + unat (3 :: uint256)"
    and "amount (sellOrders s' ! 1) = amount (sellOrders market_state ! 1) - 3"
    by (auto simp: sel)
  with b5 b6 am have quiet: "\<exists>s'. transact (fulfillSellOrder 6 0 (\<lambda>_ _ _. True) (\<lambda>_ _ _. []) 1 3) market_state = (Inr True, s')
          \<and> unat (balanceOf s' 5) = 997 \<and> unat (balanceOf s' 6) = 3
          \<and> amount (sellOrders s' ! 1) = 7"
    by auto
  let ?m = "moved 6 1 3 (market_state\<lparr>entered := True\<rparr>)"
  from fulfillSellOrder_truncated_price_amended [where s = market_state and i = 1 and a = 3
      and pay = "\<lambda>_ _ _. True" and reentry = "\<lambda>_ _ _. [CbTransfer 5 8 5]" and buyer = 6,
      OF h1 h2 h3 h4 h5 h6 h7 TrueI h9 h10 h11]
  have active: "transact (fulfillSellOrder 6 0 (\<lambda>_ _ _. True) (\<lambda>_ _ _. [CbTransfer 5 8 5]) 1 3)
                  market_state
                = (Inr True, settled 6 0 [CbTransfer 5 8 5] 1 3 market_state)"
    and m5: "unat (balanceOf ?m 5) + unat (3 :: uint256) = unat (balanceOf market_state 5)"
    and m6: "unat (balanceOf ?m 6) = unat (balanceOf market_state 6) + unat (3 :: uint256)"
    by (simp_all add: sel)
  have bm: "balances (moved 6 (Suc 0) 3 (market_state\<lparr>entered := True\<rparr>))
              = (\<lambda>_. 0)(5 := 997, 6 := 3)"
    by (simp add: moved_def market_state_orders market_state_balance)
  have after: "balances (settled 6 0 [CbTransfer 5 8 5] (Suc 0) 3 market_state) 5 = 992"
    "balances (settled 6 0 [CbTransfer 5 8 5] (Suc 0) 3 market_state) 8 = 5"
    "balances (settled 6 0 [CbTransfer 5 8 5] (Suc 0) 3 market_state) 6 = 3"
    by (simp_all add: settled_def emit_def transact_def forget_def transfer_def
          ledger_transfer_def ledger_update_def bm)
  from m5 m6 b5 b6 have "unat (balanceOf ?m 5) = 997" "unat (balanceOf ?m 6) = 3" by simp_all
  with quiet active h1 h2 h3 h4 h5 h6 h7 h9 h10 h11 show ?thesis
    by (simp add: after balanceOf_def)
qed

text \<open>
  Claim C10, as stated, fails: order 1 of \<open>underfunded_state\<close> is open, the amount 3 is
  valid for it and its price truncates to zero, and the call with zero payment fails
  \<open>SellerUnderfunded\<close>, the seller holding no credits any more. In \<open>market_state\<close>,
  where the seller holds the credits, the same call fails \<open>PaymentForwardingFailed\<close> when
  the seller refuses the forwarded payment of zero.
\<close>

theorem fulfillSellOrder_underfunded_counterexample:
  "\<not> entered underfunded_state \<and> 1 < length (sellOrders underfunded_state)
   \<and> \<not> fulfilled (sellOrders underfunded_state ! 1)
   \<and> (0 :: uint256) < 3 \<and> (3 :: uint256) \<le> amount (sellOrders underfunded_state ! 1)
   \<and> unat (3 :: uint256) * unat (pricePerToken (sellOrders underfunded_state ! 1))
        < 1000000000000000000
   \<and> transact (fulfillSellOrder 6 0 (\<lambda>_ _ _. True) (\<lambda>_ _ _. []) 1 3) underfunded_state
       = (Inl SellerUnderfunded, underfunded_state)
   \<and> \<not> entered market_state \<and> 1 < length (sellOrders market_state)
   \<and> \<not> fulfilled (sellOrders market_state ! 1)
   \<and> (3 :: uint256) \<le> amount (sellOrders market_state ! 1)
   \<and> unat (3 :: uint256) * unat (pricePerToken (sellOrders market_state ! 1))
        < 1000000000000000000
   \<and> transact (fulfillSellOrder 6 0 (\<lambda>_ _ _. False) (\<lambda>_ _ _. []) 1 3) market_state
       = (Inl PaymentForwardingFailed, market_state)"
proof -
  have t: "transact (fulfillSellOrder 6 0 (\<lambda>_ _ _. True) (\<lambda>_ _ _. []) 1 3) underfunded_state
       = (Inl SellerUnderfunded, underfunded_state)"
    by (rule transact_Inl [where ?s1.0 = "underfunded_state\<lparr>entered := True\<rparr>"])
       (simp add: fulfillSellOrder_def nonReentrant_def underfunded_state_entered
          fulfillSellOrder_body_def underfunded_state_orders market_state_orders
          underfunded_state_balance checked_mul_def balanceOf_def SCALE_def)
  have "fst (fulfillSellOrder 6 0 (\<lambda>_ _ _. False) (\<lambda>_ _ _. []) 1 3 market_state) = Inl PaymentForwardingFailed"
    by (simp add: fulfillSellOrder_def nonReentrant_def market_state_entered
          fulfillSellOrder_body_def market_state_orders market_state_balance balanceOf_def
          checked_mul_def checked_sub_def SCALE_def reduceOrder_def
          ledger_transfer_def ledger_update_def emit_def Let_def)
  then obtain s1 where "fulfillSellOrder 6 0 (\<lambda>_ _ _. False) (\<lambda>_ _ _. []) 1 3 market_state
                          = (Inl PaymentForwardingFailed, s1)"
    by (metis prod.collapse)
  then have u: "transact (fulfillSellOrder 6 0 (\<lambda>_ _ _. False) (\<lambda>_ _ _. []) 1 3) market_state
       = (Inl PaymentForwardingFailed, market_state)"
    by (rule transact_Inl)
  show ?thesis
    using t u
    by (simp add: underfunded_state_entered underfunded_state_orders market_state_orders
          market_state_entered)
qed

subsection \<open>Claiming credits\<close>

lemma earnCarbonCredit_cases:
  "earnCarbonCredit sender e t s =
     (if e = 0 then (Inl InvalidAmount, s)
      else if smartMeterData s sender t = 0 then (Inl NoAttestation, s)
      else if smartMeterData s sender t < e then (Inl ClaimExceedsAttested, s)
      else if \<not> unat e * 1000000000000000000 < 2 ^ 256 then (Inl Panic, s)
      else if ENERGY_TO_CREDIT_CONVERSION s = 0 then (Inl Panic, s)
      else if e * SCALE div ENERGY_TO_CREDIT_CONVERSION s = 0 then (Inl BelowMintingThreshold, s)
      else
        (case ledger_mint sender (e * SCALE div ENERGY_TO_CREDIT_CONVERSION s)
                (s\<lparr>smartMeterData := (smartMeterData s)(sender :=
                     (smartMeterData s sender)(t := smartMeterData s sender t - e))\<rparr>) of
           (Inl err, s') \<Rightarrow> (Inl err, s')
         | (Inr _, s') \<Rightarrow>
             (Inr (e * SCALE div ENERGY_TO_CREDIT_CONVERSION s),
              emit (CarbonCreditsMinted sender e (e * SCALE div ENERGY_TO_CREDIT_CONVERSION s)) s')))"
  by (simp add: earnCarbonCredit_def Let_def checked_mul_def checked_div_def checked_sub_def
                unat_SCALE word_neq_0_conv [symmetric] not_le not_less [symmetric])

lemma credits_exact:
  assumes "unat e * 1000000000000000000 < 2 ^ 256"
  shows "unat (e * SCALE div r) = unat e * 1000000000000000000 div unat r"
proof -
  from assms have "unat (e * SCALE) = unat e * 1000000000000000000"
    using unat_mult_lem [of e SCALE] by (simp add: unat_SCALE)
  then show ?thesis by (simp add: unat_div)
qed

lemma earnCarbonCredit_ok:
  assumes sender: "sender \<noteq> 0" and pos: "0 < e" and le: "e \<le> smartMeterData s sender t"
    and nov: "unat e * 1000000000000000000 < 2 ^ 256"
    and ratio: "ENERGY_TO_CREDIT_CONVERSION s \<noteq> 0"
    and c: "c = e * SCALE div ENERGY_TO_CREDIT_CONVERSION s" and cpos: "c \<noteq> 0"
    and room: "unat (totalSupply s) + unat c < 2 ^ 256"
  shows "earnCarbonCredit sender e t s = (Inr c, minted sender e t c s)"
proof -
  from pos have e0: "e \<noteq> 0" by auto
  from pos le have m0: "smartMeterData s sender t \<noteq> 0" by auto
  from le have nlt: "\<not> smartMeterData s sender t < e" by (simp add: not_less)
  let ?s1 = "s\<lparr>smartMeterData := (smartMeterData s)(sender :=
                     (smartMeterData s sender)(t := smartMeterData s sender t - e))\<rparr>"
  have room1: "unat (totalSupply ?s1) + unat c < 2 ^ 256" using room by simp
  have m: "ledger_mint sender c ?s1 =
     (Inr (), emit (Transfer 0 sender c)
        (?s1\<lparr>totalSupply := totalSupply ?s1 + c,
           balances := (balances ?s1)(sender := balances ?s1 sender + c)\<rparr>))"
    by (rule ledger_mint_ok [OF sender room1])
  show ?thesis
    using e0 m0 nlt nov ratio cpos
    by (simp add: earnCarbonCredit_cases c [symmetric] m emit_def minted_def)
qed

lemmas meter_defs = run_defs registerDevice_def logSmartMeterData_def earnCarbonCredit_cases

lemma meter_state_data: "smartMeterData meter_state = (\<lambda>_ _. 0)(5 := (\<lambda>_. 0)(77 := 500))"
  by (simp add: meter_state_def meter_defs)

lemma meter_state_ledger:
  "balances meter_state = (\<lambda>_. 0)" "totalSupply meter_state = 0"
  "ENERGY_TO_CREDIT_CONVERSION meter_state = 100"
  by (simp_all add: meter_state_def meter_defs)

text \<open>
  Claim C4, as amended. For a caller other than the zero address and a conserved ledger,
  \<^verbatim>\<open>earnCarbonCredit\<close> checks in this order: it fails \<open>InvalidAmount\<close> for the energy
  amount zero; \<open>NoAttestation\<close> when the stored meter value is zero;
  \<open>ClaimExceedsAttested\<close> when the amount exceeds the stored value; with the arithmetic
  panic when \<open>e * 10 ^ 18\<close> does not fit in 256 bits or the conversion ratio is zero;
  \<open>BelowMintingThreshold\<close> when the credits \<open>e * 10 ^ 18 div ratio\<close> are zero; with
  the panic again when the total supply cannot take the credits. Otherwise it mints
  exactly \<open>e * 10 ^ 18 div ratio\<close> credits to the caller's balance, returns that number,
  decrements the caller's meter record for that time by exactly \<open>e\<close>, and changes no
  other balance or record. Every failure leaves the state as it was.
\<close>

theorem earnCarbonCredit_amended:
  assumes sender: "sender \<noteq> 0" and cons: "conserved s"
  shows "(e = 0 \<longrightarrow> transact (earnCarbonCredit sender e t) s = (Inl InvalidAmount, s))
    \<and> (0 < e \<and> smartMeterData s sender t = 0 \<longrightarrow>
          transact (earnCarbonCredit sender e t) s = (Inl NoAttestation, s))
    \<and> (0 < e \<and> 0 < smartMeterData s sender t \<and> smartMeterData s sender t < e \<longrightarrow>
          transact (earnCarbonCredit sender e t) s = (Inl ClaimExceedsAttested, s))
    \<and> (0 < e \<and> e \<le> smartMeterData s sender t
          \<and> (\<not> unat e * 1000000000000000000 < 2 ^ 256 \<or> ENERGY_TO_CREDIT_CONVERSION s = 0) \<longrightarrow>
          transact (earnCarbonCredit sender e t) s = (Inl Panic, s))
    \<and> (0 < e \<and> e \<le> smartMeterData s sender t
          \<and> unat e * 1000000000000000000 < 2 ^ 256 \<and> ENERGY_TO_CREDIT_CONVERSION s \<noteq> 0
          \<and> unat e * 1000000000000000000 div unat (ENERGY_TO_CREDIT_CONVERSION s) = 0 \<longrightarrow>
          transact (earnCarbonCredit sender e t) s = (Inl BelowMintingThreshold, s))
    \<and> (0 < e \<and> e \<le> smartMeterData s sender t
          \<and> unat e * 1000000000000000000 < 2 ^ 256 \<and> ENERGY_TO_CREDIT_CONVERSION s \<noteq> 0
          \<and> 0 < unat e * 1000000000000000000 div unat (ENERGY_TO_CREDIT_CONVERSION s)
          \<and> \<not> unat (totalSupply s)
                + unat e * 1000000000000000000 div unat (ENERGY_TO_CREDIT_CONVERSION s) < 2 ^ 256 \<longrightarrow>
          transact (earnCarbonCredit sender e t) s = (Inl Panic, s))
    \<and> (0 < e \<and> e \<le> smartMeterData s sender t
          \<and> unat e * 1000000000000000000 < 2 ^ 256 \<and> ENERGY_TO_CREDIT_CONVERSION s \<noteq> 0
          \<and> 0 < unat e * 1000000000000000000 div unat (ENERGY_TO_CREDIT_CONVERSION s)
          \<and> unat (totalSupply s)
                + unat e * 1000000000000000000 div unat (ENERGY_TO_CREDIT_CONVERSION s) < 2 ^ 256 \<longrightarrow>
          (\<exists>c s'. transact (earnCarbonCredit sender e t) s = (Inr c, s')
             \<and> unat c = unat e * 1000000000000000000 div unat (ENERGY_TO_CREDIT_CONVERSION s)
             \<and> unat (balanceOf s' sender) = unat (balanceOf s sender) + unat c
             \<and> (\<forall>a. a \<noteq> sender \<longrightarrow> balanceOf s' a = balanceOf s a)
             \<and> unat (smartMeterData s' sender t) + unat e = unat (smartMeterData s sender t)
             \<and> (\<forall>p b. (p, b) \<noteq> (sender, t) \<longrightarrow> smartMeterData s' p b = smartMeterData s p b)))"
proof -
  let ?r = "ENERGY_TO_CREDIT_CONVERSION s" and ?m = "smartMeterData s sender t"
  let ?c = "e * SCALE div ?r"
  let ?n = "unat e * 1000000000000000000 div unat ?r"
  have c1: "transact (earnCarbonCredit sender e t) s = (Inl InvalidAmount, s)" if "e = 0"
    using that by (simp add: transact_def earnCarbonCredit_cases)
  have c2: "transact (earnCarbonCredit sender e t) s = (Inl NoAttestation, s)"
    if "0 < e \<and> ?m = 0"
  proof -
    from that have "e \<noteq> 0" by auto
    with that show ?thesis by (simp add: transact_def earnCarbonCredit_cases)
  qed
  have c3: "transact (earnCarbonCredit sender e t) s = (Inl ClaimExceedsAttested, s)"
    if "0 < e \<and> 0 < ?m \<and> ?m < e"
  proof -
    from that have "e \<noteq> 0" and "?m \<noteq> 0" by auto
    with that show ?thesis by (simp add: transact_def earnCarbonCredit_cases)
  qed
  have pre: "e \<noteq> 0 \<and> ?m \<noteq> 0 \<and> \<not> ?m < e" if "0 < e \<and> e \<le> ?m"
    using that by (auto simp: not_less)
  have c4: "transact (earnCarbonCredit sender e t) s = (Inl Panic, s)"
    if h: "0 < e \<and> e \<le> ?m \<and> (\<not> unat e * 1000000000000000000 < 2 ^ 256 \<or> ?r = 0)"
  proof -
    from h pre have p: "e \<noteq> 0 \<and> ?m \<noteq> 0 \<and> \<not> ?m < e" by blast
    from h have "\<not> unat e * 1000000000000000000 < 2 ^ 256 \<or> ?r = 0" by blast
    then show ?thesis
    proof
      assume "\<not> unat e * 1000000000000000000 < 2 ^ 256"
      with p show ?thesis by (simp add: transact_def earnCarbonCredit_cases)
    next
      assume "?r = 0"
      with p show ?thesis by (simp add: transact_def earnCarbonCredit_cases)
    qed
  qed
  have c5: "transact (earnCarbonCredit sender e t) s = (Inl BelowMintingThreshold, s)"
    if h: "0 < e \<and> e \<le> ?m \<and> unat e * 1000000000000000000 < 2 ^ 256 \<and> ?r \<noteq> 0 \<and> ?n = 0"
  proof -
    from h pre have p: "e \<noteq> 0 \<and> ?m \<noteq> 0 \<and> \<not> ?m < e" by blast
    from h have nov: "unat e * 1000000000000000000 < 2 ^ 256" and r: "?r \<noteq> 0" and n: "?n = 0"
      by blast+
    from credits_exact [OF nov, of ?r] n have "unat ?c = 0" by simp
    then have "?c = 0" by (simp add: unat_eq_0)
    with p nov r show ?thesis by (simp add: transact_def earnCarbonCredit_cases)
  qed
  have c6: "transact (earnCarbonCredit sender e t) s = (Inl Panic, s)"
    if h: "0 < e \<and> e \<le> ?m \<and> unat e * 1000000000000000000 < 2 ^ 256 \<and> ?r \<noteq> 0 \<and> 0 < ?n
           \<and> \<not> unat (totalSupply s) + ?n < 2 ^ 256"
  proof -
    from h pre have p: "e \<noteq> 0 \<and> ?m \<noteq> 0 \<and> \<not> ?m < e" by blast
    from h have nov: "unat e * 1000000000000000000 < 2 ^ 256" and r: "?r \<noteq> 0" and n: "0 < ?n"
      and full: "\<not> unat (totalSupply s) + ?n < 2 ^ 256"
      by blast+
    have uc: "unat ?c = ?n" by (rule credits_exact [OF nov])
    with n have cne: "?c \<noteq> 0" by auto
    from full uc have full': "\<not> unat (totalSupply s) + unat ?c < 2 ^ 256" by simp
    have "fst (ledger_mint sender ?c
                (s\<lparr>smartMeterData := (smartMeterData s)(sender :=
                     (smartMeterData s sender)(t := ?m - e))\<rparr>)) = Inl Panic"
      using sender full' by (simp add: ledger_mint_def ledger_update_def checked_add_def)
    then obtain s1 where "ledger_mint sender ?c
                (s\<lparr>smartMeterData := (smartMeterData s)(sender :=
                     (smartMeterData s sender)(t := ?m - e))\<rparr>) = (Inl Panic, s1)"
      by (metis prod.collapse)
    with p nov r cne show ?thesis by (simp add: transact_def earnCarbonCredit_cases)
  qed
  have c7: "\<exists>c s'. transact (earnCarbonCredit sender e t) s = (Inr c, s')
             \<and> unat c = ?n
             \<and> unat (balanceOf s' sender) = unat (balanceOf s sender) + unat c
             \<and> (\<forall>a. a \<noteq> sender \<longrightarrow> balanceOf s' a = balanceOf s a)
             \<and> unat (smartMeterData s' sender t) + unat e = unat ?m
             \<and> (\<forall>p b. (p, b) \<noteq> (sender, t) \<longrightarrow> smartMeterData s' p b = smartMeterData s p b)"
    if h: "0 < e \<and> e \<le> ?m \<and> unat e * 1000000000000000000 < 2 ^ 256 \<and> ?r \<noteq> 0 \<and> 0 < ?n
           \<and> unat (totalSupply s) + ?n < 2 ^ 256"
  proof -
    from h have pos: "0 < e" and le: "e \<le> ?m"
      and nov: "unat e * 1000000000000000000 < 2 ^ 256" and r: "?r \<noteq> 0" and n: "0 < ?n"
      and room: "unat (totalSupply s) + ?n < 2 ^ 256"
      by blast+
    have uc: "unat ?c = ?n" by (rule credits_exact [OF nov])
    with n have cne: "?c \<noteq> 0" by auto
    from room uc have room': "unat (totalSupply s) + unat ?c < 2 ^ 256" by simp
    let ?s' = "minted sender e t ?c s"
    have "earnCarbonCredit sender e t s = (Inr ?c, ?s')"
      by (rule earnCarbonCredit_ok [OF sender pos le nov r refl cne room'])
    then have run: "transact (earnCarbonCredit sender e t) s = (Inr ?c, ?s')"
      by (rule transact_Inr)
    have "unat (balances s sender) \<le> unat (totalSupply s)"
      using cons bal_le_sum [of s sender] by (simp add: conserved_def)
    with room' have "unat (balances s sender) + unat ?c < 2 ^ 256" by simp
    then have "unat (balances s sender + ?c) = unat (balances s sender) + unat ?c"
      by (simp add: unat_add_lem [THEN iffD1])
    then have b: "unat (balanceOf ?s' sender) = unat (balanceOf s sender) + unat ?c"
      by (simp add: minted_def balanceOf_def)
    have o: "\<forall>a. a \<noteq> sender \<longrightarrow> balanceOf ?s' a = balanceOf s a"
      by (simp add: minted_def balanceOf_def)
    from le have "unat e \<le> unat ?m" by (simp add: word_le_nat_alt)
    with unat_sub_le [OF le] have m: "unat (smartMeterData ?s' sender t) + unat e = unat ?m"
      by (simp add: minted_def)
    have om: "\<forall>p b. (p, b) \<noteq> (sender, t) \<longrightarrow> smartMeterData ?s' p b = smartMeterData s p b"
      by (simp add: minted_def)
    from run uc b o m om show ?thesis by blast
  qed
  from c1 c2 c3 c4 c5 c6 c7 show ?thesis by blast
qed

theorem earnCarbonCredit_amended_witness:
  "(5 :: address) \<noteq> 0 \<and> conserved meter_state
   \<and> (0 :: uint256) < 300 \<and> (300 :: uint256) \<le> smartMeterData meter_state 5 77
   \<and> unat (300 :: uint256) * 1000000000000000000 < 2 ^ 256
   \<and> ENERGY_TO_CREDIT_CONVERSION meter_state \<noteq> 0
   \<and> 0 < unat (300 :: uint256) * 1000000000000000000
           div unat (ENERGY_TO_CREDIT_CONVERSION meter_state)
   \<and> unat (totalSupply meter_state) + unat (300 :: uint256) * 1000000000000000000
           div unat (ENERGY_TO_CREDIT_CONVERSION meter_state) < 2 ^ 256
   \<and> (\<exists>c s'. transact (earnCarbonCredit 5 300 77) meter_state = (Inr c, s')
         \<and> unat c = 3000000000000000000
         \<and> unat (balanceOf s' 5) = 3000000000000000000
         \<and> unat (smartMeterData s' 5 77) = 200)
   \<and> (0 :: uint256) < 501 \<and> 0 < smartMeterData meter_state 5 77
   \<and> smartMeterData meter_state 5 77 < 501
   \<and> transact (earnCarbonCredit 5 501 77) meter_state = (Inl ClaimExceedsAttested, meter_state)"
proof -
  have h1: "(5 :: address) \<noteq> 0" by simp
  have h2: "conserved meter_state"
    unfolding meter_state_def by (rule run_conserved) (rule constructor_conserved)
  have h3: "(0 :: uint256) < 300 \<and> (300 :: uint256) \<le> smartMeterData meter_state 5 77
     \<and> unat (300 :: uint256) * 1000000000000000000 < 2 ^ 256
     \<and> ENERGY_TO_CREDIT_CONVERSION meter_state \<noteq> 0
     \<and> 0 < unat (300 :: uint256) * 1000000000000000000
           div unat (ENERGY_TO_CREDIT_CONVERSION meter_state)
     \<and> unat (totalSupply meter_state) + unat (300 :: uint256) * 1000000000000000000
           div unat (ENERGY_TO_CREDIT_CONVERSION meter_state) < 2 ^ 256"
    by (simp add: meter_state_data meter_state_ledger)
  have h4: "(0 :: uint256) < 501 \<and> 0 < smartMeterData meter_state 5 77
     \<and> smartMeterData meter_state 5 77 < 501"
    by (simp add: meter_state_data)
  have v: "unat (300 :: uint256) * 1000000000000000000
           div unat (ENERGY_TO_CREDIT_CONVERSION meter_state) = 3000000000000000000"
    and b: "unat (balanceOf meter_state 5) = 0" and m: "unat (smartMeterData meter_state 5 77) = 500"
    by (simp_all add: meter_state_data meter_state_ledger balanceOf_def)
  from earnCarbonCredit_amended [OF h1 h2, of 300 77] h3
  obtain c s' where r: "transact (earnCarbonCredit 5 300 77) meter_state = (Inr c, s')"
    and 1: "unat c = unat (300 :: uint256) * 1000000000000000000
           div unat (ENERGY_TO_CREDIT_CONVERSION meter_state)"
    and 2: "unat (balanceOf s' 5) = unat (balanceOf meter_state 5) + unat c"
    and 3: "unat (smartMeterData s' 5 77) + unat (300 :: uint256) = unat (smartMeterData meter_state 5 77)"
    by blast
  from 1 2 3 v b m have "unat c = 3000000000000000000
         \<and> unat (balanceOf s' 5) = 3000000000000000000
         \<and> unat (smartMeterData s' 5 77) = 200"
    by simp
  with r have ok: "\<exists>c s'. transact (earnCarbonCredit 5 300 77) meter_state = (Inr c, s')
         \<and> unat c = 3000000000000000000
         \<and> unat (balanceOf s' 5) = 3000000000000000000
         \<and> unat (smartMeterData s' 5 77) = 200"
    by blast
  from earnCarbonCredit_amended [OF h1 h2, of 501 77] h4
  have ex: "transact (earnCarbonCredit 5 501 77) meter_state = (Inl ClaimExceedsAttested, meter_state)"
    by blast
  from h1 h2 h3 h4 ok ex show ?thesis by blast
qed

text \<open>
  Claim C4, as stated, fails for the energy amount zero: with a stored value of zero the
  call fails \<open>InvalidAmount\<close>, not \<open>NoAttestation\<close>, and with a positive stored value
  (which zero does not exceed) it fails \<open>InvalidAmount\<close> too, not
  \<open>BelowMintingThreshold\<close>. It fails also once the owner has set the conversion ratio to
  zero: a claim of 300 out of the 500 attested mints nothing and fails with the panic of
  the division.
\<close>

theorem earnCarbonCredit_zero_counterexample:
  "smartMeterData (constructor 1 2) 5 77 = 0
   \<and> transact (earnCarbonCredit 5 0 77) (constructor 1 2) = (Inl InvalidAmount, constructor 1 2)
   \<and> 0 < smartMeterData meter_state 5 77 \<and> 0 \<le> smartMeterData meter_state 5 77
   \<and> transact (earnCarbonCredit 5 0 77) meter_state = (Inl InvalidAmount, meter_state)
   \<and> ENERGY_TO_CREDIT_CONVERSION (run meter_state [ChangeEnergyToCreditRatio 1 0]) = 0
   \<and> (300 :: uint256) \<le> smartMeterData (run meter_state [ChangeEnergyToCreditRatio 1 0]) 5 77
   \<and> transact (earnCarbonCredit 5 300 77) (run meter_state [ChangeEnergyToCreditRatio 1 0])
        = (Inl Panic, run meter_state [ChangeEnergyToCreditRatio 1 0])"
  by (simp add: meter_state_def meter_defs changeEnergyToCreditRatio_def)

subsection \<open>Attesting again after a full claim\<close>

text \<open>
  While a meter record is positive, a second attestation by a registered device is
  refused, a successful attestation leaves it as it is, and a claim never increases a
  record.
\<close>

lemma logSmartMeterData_duplicate:
  "registeredDevices s sender \<Longrightarrow> 0 < e \<Longrightarrow> smartMeterData s producer t \<noteq> 0 \<Longrightarrow>
   logSmartMeterData sender producer t e s = (Inl DuplicateAttestation, s)"
  by (simp add: logSmartMeterData_def)

lemma logSmartMeterData_positive:
  assumes "smartMeterData s p t \<noteq> 0" and "logSmartMeterData sender producer b e s = (Inr u, s')"
  shows "smartMeterData s' p t = smartMeterData s p t"
  using assms by (auto simp: logSmartMeterData_def emit_def split: if_splits)

lemma earnCarbonCredit_meter:
  assumes "earnCarbonCredit sender e b s = (Inr u, s')"
  shows "smartMeterData s' p t \<le> smartMeterData s p t"
proof -
  from assms obtain s1 where
    le: "e \<le> smartMeterData s sender b"
    and m: "ledger_mint sender u (s\<lparr>smartMeterData := (smartMeterData s)(sender :=
              (smartMeterData s sender)(b := smartMeterData s sender b - e))\<rparr>) = (Inr (), s1)"
    and s': "s' = emit (CarbonCreditsMinted sender e u) s1"
    by (auto simp: earnCarbonCredit_cases not_less split: if_splits prod.splits sum.splits)
  from le have "smartMeterData s sender b - e \<le> smartMeterData s sender b"
    by (simp add: word_sub_le)
  with ledger_mint_frame(2) [OF m] show ?thesis by (simp add: s' emit_def)
qed

text \<open>
  Claim C1 at a failing input. In \<open>meter_state\<close> the record of producer 5 at time 77
  holds 500 and the registered device 9 is refused a second attestation
  (\<open>DuplicateAttestation\<close>). Once the producer has claimed all 500, the record is back
  at zero, the value that also means "not yet recorded": the same device attests the
  same key again, successfully, the stored value rises from 0 to 500, and a second full
  claim doubles the producer's credits.
\<close>

theorem logSmartMeterData_after_full_claim:
  "smartMeterData meter_state 5 77 = 500
   \<and> transact (logSmartMeterData 9 5 77 500) meter_state = (Inl DuplicateAttestation, meter_state)
   \<and> smartMeterData (run meter_state [EarnCarbonCredit 5 500 77]) 5 77 = 0
   \<and> fst (transact (logSmartMeterData 9 5 77 500) (run meter_state [EarnCarbonCredit 5 500 77]))
        = Inr True
   \<and> smartMeterData
        (run meter_state [EarnCarbonCredit 5 500 77, LogSmartMeterData 9 5 77 500]) 5 77 = 500
   \<and> balanceOf (run meter_state [EarnCarbonCredit 5 500 77]) 5 = 5000000000000000000
   \<and> balanceOf
        (run meter_state
           [EarnCarbonCredit 5 500 77, LogSmartMeterData 9 5 77 500, EarnCarbonCredit 5 500 77]) 5
        = 10000000000000000000"
  by (simp add: meter_state_def meter_defs)

subsection \<open>Validation of a batch\<close>






lemma fulfillBatchOrders_body_checks:
  "fulfillBatchOrders_body sender v pay reentry ids amts prices s =
     (if ids = [] then (Inl EmptyBatch, s)
      else if length ids \<noteq> length amts \<or> length ids \<noteq> length prices then (Inl LengthMismatch, s)
      else
        (case firstPass s (zip ids (zip amts prices)) 0 of
           Inl e \<Rightarrow> (Inl e, s)
         | Inr totalCost \<Rightarrow>
             if totalCost \<noteq> v then (Inl IncorrectPayment, s)
             else
               (case secondPass (zip ids (zip amts prices)) s of
                  (Inl e, s1) \<Rightarrow> (Inl e, s1)
                | (Inr _, s1) \<Rightarrow>
                    (case thirdPass sender pay reentry 0 (zip ids (zip amts prices)) s1 of
                       (Inl e, s2) \<Rightarrow> (Inl e, s2)
                     | (Inr _, s2) \<Rightarrow>
                         (Inr (), emit (BatchOrdersFulfilled sender ids totalCost) s2)))))"
  by (simp add: fulfillBatchOrders_body_def Let_def)

lemma zip3_nth:
  assumes "k < length ids" and "length ids = length amts" and "length ids = length prices"
  shows "zip ids (zip amts prices) ! k = (ids ! k, amts ! k, prices ! k)"
    and "zip ids (zip amts prices) =
           take k (zip ids (zip amts prices)) @ (ids ! k, amts ! k, prices ! k) # drop (Suc k) (zip ids (zip amts prices))"
proof -
  from assms have len: "k < length (zip ids (zip amts prices))" by simp
  from assms show 1: "zip ids (zip amts prices) ! k = (ids ! k, amts ! k, prices ! k)" by simp
  from id_take_nth_drop [OF len] 1
  show "zip ids (zip amts prices) =
           take k (zip ids (zip amts prices)) @ (ids ! k, amts ! k, prices ! k) # drop (Suc k) (zip ids (zip amts prices))"
    by simp
qed

lemma batch_state_orders:
  "sellOrders batch_state =
     [\<lparr>seller = 5, amount = 10, pricePerToken = 1000000000000000000, fulfilled = False\<rparr>,
      \<lparr>seller = 7, amount = 5, pricePerToken = 2000000000000000000, fulfilled = False\<rparr>]"
  by (simp add: batch_state_def run_defs)

lemma batch_state_entered: "\<not> entered batch_state"
  by (simp add: batch_state_def run_defs)

lemma batch_state_balances: "balances batch_state = (\<lambda>_. 0)(5 := 1000, 7 := 5)"
  by (simp add: batch_state_def run_defs)




subsection \<open>Atomicity of fulfilment\<close>

lemma reduceOrder_seller:
  assumes "reduceOrder j a s = (Inr u, s')"
  shows "seller (sellOrders s' ! i) = seller (sellOrders s ! i)"
proof (cases "i = j")
  case True
  with reduceOrder_Inr(7) [OF assms] show ?thesis by simp
next
  case False
  with reduceOrder_Inr(2) [OF assms, of i] show ?thesis by simp
qed

lemma secondPass_seller:
  "secondPass es s = (Inr u, s') \<Longrightarrow> seller (sellOrders s' ! i) = seller (sellOrders s ! i)"
proof (induction es arbitrary: s)
  case Nil
  then show ?case by simp
next
  case (Cons e es)
  obtain j a p where e: "e = (j, a, p)" by (cases e)
  from Cons.prems obtain s1 where r: "reduceOrder j a s = (Inr (), s1)"
    and rest: "secondPass es s1 = (Inr u, s')"
    by (auto simp: e split: prod.splits sum.splits)
  from Cons.IH [OF rest] reduceOrder_seller [OF r, of i] show ?case by simp
qed

lemma thirdPass_paid:
  "thirdPass sender pay reentry n es s = (Inr u, s') \<Longrightarrow> k < length es \<Longrightarrow> es ! k = (j, a, p) \<Longrightarrow>
   j < length (sellOrders s) \<Longrightarrow>
   pay (n + k) (seller (sellOrders s ! j)) (a * p div SCALE)"
proof (induction es arbitrary: s n k)
  case Nil
  then show ?case by simp
next
  case (Cons e es)
  obtain j' a' p' where e: "e = (j', a', p')" by (cases e)
  let ?cbs = "reentry n (seller (sellOrders s ! j')) (a' * p' div SCALE)"
  from Cons.prems(1) obtain s1 where
    t: "ledger_transfer (seller (sellOrders s ! j')) sender a' s = (Inr (), s1)"
    and paid: "pay n (seller (sellOrders s ! j')) (a' * p' div SCALE)"
    and rest: "thirdPass sender pay reentry (Suc n) es
                 (emit (SellOrderFulfilled j' sender a' (a' * p' div SCALE)) (callbacks ?cbs s1))
               = (Inr u, s')"
    by (auto simp: e Let_def checked_mul_def split: if_splits prod.splits sum.splits)
  let ?s2 = "emit (SellOrderFulfilled j' sender a' (a' * p' div SCALE)) (callbacks ?cbs s1)"
  show ?case
  proof (cases k)
    case 0
    with Cons.prems(3) e paid show ?thesis by simp
  next
    case (Suc k')
    with Cons.prems(2,3) have k': "k' < length es" and nth: "es ! k' = (j, a, p)" by simp_all
    from Cons.prems(4) ledger_transfer_frame(1) [OF t] have j1: "j < length (sellOrders s1)"
      by simp
    from callbacks_keeps [OF j1, of ?cbs] ledger_transfer_frame(1) [OF t]
    have keep: "j < length (sellOrders ?s2)" "sellOrders ?s2 ! j = sellOrders s ! j"
      by (simp_all add: emit_def)
    from Cons.IH [OF rest k' nth keep(1)] keep(2) Suc show ?thesis by simp
  qed
qed

lemma fulfillBatchOrders_paid:
  assumes ok: "fulfillBatchOrders sender v pay reentry ids amts prices s = (Inr u, s')"
    and k: "k < length ids"
  shows "pay k (seller (sellOrders s ! (ids ! k))) (amts ! k * prices ! k div SCALE)"
proof -
  let ?s0 = "s\<lparr>entered := True\<rparr>" and ?es = "zip ids (zip amts prices)"
  from ok obtain s3 where b: "fulfillBatchOrders_body sender v pay reentry ids amts prices ?s0 = (Inr u, s3)"
    using nonReentrant_Inr [of "fulfillBatchOrders_body sender v pay reentry ids amts prices" s u s']
    by (auto simp: fulfillBatchOrders_def)
  from fulfillBatchOrders_body_Inr [OF b] obtain s1 s2 where
    l1: "length ids = length amts" and l2: "length ids = length prices"
    and p1: "firstPass ?s0 ?es 0 = Inr v"
    and p2: "secondPass ?es ?s0 = (Inr (), s1)"
    and p3: "thirdPass sender pay reentry 0 ?es s1 = (Inr (), s2)"
    by blast
  from k l1 l2 have len: "k < length ?es" by simp
  then have "?es ! k \<in> set ?es" by (rule nth_mem)
  with zip3_nth(1) [OF k l1 l2] have "(ids ! k, amts ! k, prices ! k) \<in> set ?es" by simp
  from firstPass_valid [OF p1 this] have "ids ! k < length (sellOrders ?s0)" by blast
  with secondPass_Inr [OF p2] have r: "ids ! k < length (sellOrders s1)" by simp
  from thirdPass_paid [OF p3 len zip3_nth(1) [OF k l1 l2] r]
  have "pay k (seller (sellOrders s1 ! (ids ! k))) (amts ! k * prices ! k div SCALE)" by simp
  with secondPass_seller [OF p2, of "ids ! k"] show ?thesis by simp
qed

lemma fulfillSellOrder_paid:
  assumes ok: "fulfillSellOrder sender v pay reentry i a s = (Inr u, s')"
  shows "pay 0 (seller (sellOrders s ! i)) v"
proof -
  let ?s0 = "s\<lparr>entered := True\<rparr>"
  from ok obtain s3 where b: "fulfillSellOrder_body sender v pay reentry i a ?s0 = (Inr u, s3)"
    using nonReentrant_Inr [of "fulfillSellOrder_body sender v pay reentry i a" s u s']
    by (auto simp: fulfillSellOrder_def)
  from fulfillSellOrder_body_Inr [OF b] have "pay 0 (seller (sellOrders ?s0 ! i)) v" by blast
  then show ?thesis by simp
qed

lemma transact_cases:
  "(\<exists>e. transact body s = (Inl e, s)) \<or> (\<exists>x s'. body s = (Inr x, s') \<and> transact body s = (Inr x, s'))"
proof (cases "body s")
  case (Pair r s')
  then show ?thesis by (cases r) (simp_all add: transact_def)
qed

lemma transact_fst: "fst (transact body s) = fst (body s)"
proof (cases "body s")
  case (Pair r s')
  then show ?thesis by (cases r) (simp_all add: transact_def)
qed

text \<open>
  Claim C2. A call of \<^verbatim>\<open>fulfillSellOrder\<close> or \<^verbatim>\<open>fulfillBatchOrders\<close> that fails, for
  whatever reason, leaves the state identical to the state before the call: orders,
  balances and everything else. A payment that the seller refuses makes the whole call
  fail: the single payment of \<^verbatim>\<open>fulfillSellOrder\<close>, and the payment of any entry \<open>k\<close> of
  a batch, the last one included, so that no batch is settled in part.
\<close>

theorem fulfill_atomic:
  "(fst (transact (fulfillSellOrder sender v pay reentry i a) s) = Inl e \<longrightarrow>
      snd (transact (fulfillSellOrder sender v pay reentry i a) s) = s)
   \<and> (fst (transact (fulfillBatchOrders sender v pay reentry ids amts prices) s) = Inl e \<longrightarrow>
      snd (transact (fulfillBatchOrders sender v pay reentry ids amts prices) s) = s)
   \<and> (\<not> pay 0 (seller (sellOrders s ! i)) v \<longrightarrow>
      (\<exists>e'. transact (fulfillSellOrder sender v pay reentry i a) s = (Inl e', s)))
   \<and> (k < length ids \<and> \<not> pay k (seller (sellOrders s ! (ids ! k))) (amts ! k * prices ! k div SCALE) \<longrightarrow>
      (\<exists>e'. transact (fulfillBatchOrders sender v pay reentry ids amts prices) s = (Inl e', s)))"
proof (intro conjI impI)
  assume "fst (transact (fulfillSellOrder sender v pay reentry i a) s) = Inl e"
  with transact_cases [of "fulfillSellOrder sender v pay reentry i a" s]
  show "snd (transact (fulfillSellOrder sender v pay reentry i a) s) = s" by auto
next
  assume "fst (transact (fulfillBatchOrders sender v pay reentry ids amts prices) s) = Inl e"
  with transact_cases [of "fulfillBatchOrders sender v pay reentry ids amts prices" s]
  show "snd (transact (fulfillBatchOrders sender v pay reentry ids amts prices) s) = s" by auto
next
  assume np: "\<not> pay 0 (seller (sellOrders s ! i)) v"
  from transact_cases [of "fulfillSellOrder sender v pay reentry i a" s]
  show "\<exists>e'. transact (fulfillSellOrder sender v pay reentry i a) s = (Inl e', s)"
  proof
    assume "\<exists>x s'. fulfillSellOrder sender v pay reentry i a s = (Inr x, s')
              \<and> transact (fulfillSellOrder sender v pay reentry i a) s = (Inr x, s')"
    then obtain x s' where "fulfillSellOrder sender v pay reentry i a s = (Inr x, s')" by blast
    from fulfillSellOrder_paid [OF this] np show ?thesis by simp
  qed
next
  assume h: "k < length ids \<and> \<not> pay k (seller (sellOrders s ! (ids ! k))) (amts ! k * prices ! k div SCALE)"
  from transact_cases [of "fulfillBatchOrders sender v pay reentry ids amts prices" s]
  show "\<exists>e'. transact (fulfillBatchOrders sender v pay reentry ids amts prices) s = (Inl e', s)"
  proof
    assume "\<exists>x s'. fulfillBatchOrders sender v pay reentry ids amts prices s = (Inr x, s')
              \<and> transact (fulfillBatchOrders sender v pay reentry ids amts prices) s = (Inr x, s')"
    then obtain x s' where ok: "fulfillBatchOrders sender v pay reentry ids amts prices s = (Inr x, s')" by blast
    from h have k: "k < length ids" by blast
    from fulfillBatchOrders_paid [OF ok k] h show ?thesis by simp
  qed
qed

theorem fulfill_atomic_witness:
  "fst (transact (fulfillBatchOrders 6 20 (\<lambda>k _ _. k \<noteq> 1) (\<lambda>_ _ _. []) [0, 1] [10, 5]
          [1000000000000000000, 2000000000000000000]) batch_state) = Inl PaymentForwardingFailed
   \<and> snd (transact (fulfillBatchOrders 6 20 (\<lambda>k _ _. k \<noteq> 1) (\<lambda>_ _ _. []) [0, 1] [10, 5]
          [1000000000000000000, 2000000000000000000]) batch_state) = batch_state
   \<and> fst (transact (fulfillSellOrder 6 10 (\<lambda>_ _ _. False) (\<lambda>_ _ _. []) 0 10) batch_state)
        = Inl PaymentForwardingFailed
   \<and> snd (transact (fulfillSellOrder 6 10 (\<lambda>_ _ _. False) (\<lambda>_ _ _. []) 0 10) batch_state) = batch_state"
proof -
  let ?pay = "\<lambda>k (_ :: address) (_ :: uint256). k \<noteq> (1 :: nat)"
  let ?ps = "[1000000000000000000, 2000000000000000000 :: uint256]"
  have b: "fst (fulfillBatchOrders 6 20 ?pay (\<lambda>_ _ _. []) [0, 1] [10, 5] ?ps batch_state)
             = Inl PaymentForwardingFailed"
    by (simp add: fulfillBatchOrders_def nonReentrant_def batch_state_entered
          fulfillBatchOrders_body_checks batch_state_orders batch_state_balances
          checked_mul_def checked_add_def checked_sub_def SCALE_def reduceOrder_def
          ledger_transfer_def ledger_update_def emit_def Let_def)
  then have b': "fst (transact (fulfillBatchOrders 6 20 ?pay (\<lambda>_ _ _. []) [0, 1] [10, 5] ?ps) batch_state)
             = Inl PaymentForwardingFailed"
    by (simp add: transact_fst)
  have s: "fst (fulfillSellOrder 6 10 (\<lambda>_ _ _. False) (\<lambda>_ _ _. []) 0 10 batch_state)
             = Inl PaymentForwardingFailed"
    by (simp add: fulfillSellOrder_def nonReentrant_def batch_state_entered
          fulfillSellOrder_body_def batch_state_orders batch_state_balances balanceOf_def
          checked_mul_def checked_sub_def SCALE_def reduceOrder_def
          ledger_transfer_def ledger_update_def emit_def Let_def)
  then have s': "fst (transact (fulfillSellOrder 6 10 (\<lambda>_ _ _. False) (\<lambda>_ _ _. []) 0 10) batch_state)
             = Inl PaymentForwardingFailed"
    by (simp add: transact_fst)
  from fulfill_atomic [where s = batch_state and sender = 6 and v = 20 and pay = ?pay
      and reentry = "\<lambda>_ _ _. []" and ids = "[0, 1]" and amts = "[10, 5]" and prices = ?ps and e = PaymentForwardingFailed] b'
  have 1: "snd (transact (fulfillBatchOrders 6 20 ?pay (\<lambda>_ _ _. []) [0, 1] [10, 5] ?ps) batch_state) = batch_state"
    by blast
  from fulfill_atomic [where s = batch_state and sender = 6 and v = 10 and pay = "\<lambda>_ _ _. False"
      and reentry = "\<lambda>_ _ _. []" and i = 0 and a = 10 and e = PaymentForwardingFailed] s'
  have 2: "snd (transact (fulfillSellOrder 6 10 (\<lambda>_ _ _. False) (\<lambda>_ _ _. []) 0 10) batch_state) = batch_state"
    by blast
  from b' 1 s' 2 show ?thesis by blast
qed

subsection \<open>Reachable states\<close>

text \<open>
  What the theorems above ask of a state holds after every run of calls to the deployed
  contract: no guarded call is in progress, and the ledger is conserved.
\<close>

lemma nonReentrant_released: "nonReentrant body s = (Inr u, s') \<Longrightarrow> \<not> entered s'"
  by (auto dest!: nonReentrant_Inr)

lemma dispatch_entered:
  assumes free: "\<not> entered s" and run: "dispatch c s = (Inr u, s')"
  shows "\<not> entered s'"
proof (cases c)
  case (RegisterDevice sender device)
  with assms show ?thesis
    by (auto simp: registerDevice_def onlyOwner_def emit_def split: if_splits)
next
  case (DeregisterDevice sender device)
  with assms show ?thesis
    by (auto simp: deregisterDevice_def onlyOwner_def emit_def split: if_splits)
next
  case (ChangeEnergyToCreditRatio sender r)
  with assms show ?thesis
    by (auto simp: changeEnergyToCreditRatio_def onlyOwner_def split: if_splits)
next
  case (ChangeGovtWallet sender a)
  with assms show ?thesis
    by (auto simp: changeGovtWallet_def onlyOwner_def split: if_splits)
next
  case (ChangeFloorPricePerToken sender x)
  with assms show ?thesis
    by (auto simp: changeFloorPricePerToken_def onlyOwner_def split: if_splits)
next
  case (LogSmartMeterData sender producer b e)
  with assms show ?thesis
    by (auto simp: logSmartMeterData_def emit_def dest!: forget_Inr split: if_splits)
next
  case (EarnCarbonCredit sender e b)
  with run obtain x where "earnCarbonCredit sender e b s = (Inr x, s')"
    by (auto dest!: forget_Inr)
  then obtain s1 where
    m: "ledger_mint sender x (s\<lparr>smartMeterData := (smartMeterData s)(sender :=
              (smartMeterData s sender)(b := smartMeterData s sender b - e))\<rparr>) = (Inr (), s1)"
    and s': "s' = emit (CarbonCreditsMinted sender e x) s1"
    by (auto simp: earnCarbonCredit_cases split: if_splits prod.splits sum.splits)
  from ledger_mint_frame(3) [OF m] free show ?thesis by (simp add: s' emit_def)
next
  case (PlaceSellOrder sender a x)
  with assms show ?thesis
    by (auto simp: placeSellOrder_cases emit_def dest!: forget_Inr split: if_splits)
next
  case (FulfillSellOrder sender v pay reentry j a)
  with run obtain x where "nonReentrant (fulfillSellOrder_body sender v pay reentry j a) s = (Inr x, s')"
    by (auto simp: fulfillSellOrder_def dest!: forget_Inr)
  then show ?thesis by (rule nonReentrant_released)
next
  case (FulfillBatchOrders sender v pay reentry ids amts prices)
  with run have "nonReentrant (fulfillBatchOrders_body sender v pay reentry ids amts prices) s = (Inr u, s')"
    by (simp add: fulfillBatchOrders_def)
  then show ?thesis by (rule nonReentrant_released)
next
  case (OwnerBurnCredits sender a v r)
  with assms show ?thesis
    by (auto simp: OwnerburnCredits_def onlyOwner_def emit_def
             split: if_splits prod.splits sum.splits dest: ledger_burn_frame(3))
next
  case (UtilizeCredit sender v)
  with run have "nonReentrant (UtilizeCarbonCredit_body sender v) s = (Inr u, s')"
    by (simp add: UtilizeCarbonCredit_def)
  then show ?thesis by (rule nonReentrant_released)
next
  case (MintCCT sender a v)
  with assms show ?thesis
    by (auto simp: mintCCT_def onlyOwner_def emit_def
             split: if_splits prod.splits sum.splits dest: ledger_mint_frame(3))
next
  case (TransferCall sender d v)
  with assms show ?thesis by (auto dest!: forget_Inr dest: transfer_frame(3))
next
  case (ApproveCall sender sp v)
  with assms show ?thesis by (auto dest!: forget_Inr dest: approve_frame(3))
next
  case (TransferFromCall sender f d v)
  with assms show ?thesis by (auto dest!: forget_Inr dest: transferFrom_frame(3))
qed

lemma step_entered: "\<not> entered s \<Longrightarrow> \<not> entered (step c s)"
proof -
  assume free: "\<not> entered s"
  show ?thesis
  proof (cases "dispatch c s")
    case (Pair r s1)
    show ?thesis
    proof (cases r)
      case (Inl e)
      with Pair free show ?thesis by (simp add: step_def transact_def)
    next
      case (Inr u)
      with Pair dispatch_entered [OF free, of c u s1] show ?thesis
        by (simp add: step_def transact_def)
    qed
  qed
qed

lemma run_entered: "\<not> entered s \<Longrightarrow> \<not> entered (run s cs)"
  by (induction cs arbitrary: s) (simp_all add: step_entered)

lemma reachable_well_formed:
  "\<not> entered (run (constructor deployer addr) cs) \<and> conserved (run (constructor deployer addr) cs)"
proof
  show "\<not> entered (run (constructor deployer addr) cs)"
    by (rule run_entered) (simp add: constructor_def)
  show "conserved (run (constructor deployer addr) cs)"
    by (rule run_conserved) (rule constructor_conserved)
qed

end
